theory Spec2Isabelle
  imports Main
begin

section \<open>Status codes\<close>

text \<open>
  The three families of status codes that meet in \<^verbatim>\<open>node_names.cpp\<close> and
  \<^verbatim>\<open>custom_publisher_listener.cpp\<close>: the middleware interface's \<^verbatim>\<open>rmw_ret_t\<close>,
  the utility library's \<^verbatim>\<open>rcutils_ret_t\<close> and the transport's \<^verbatim>\<open>DDS::ReturnCode_t\<close>.
\<close>

datatype rmw_ret_t =
  RMW_RET_OK | RMW_RET_ERROR | RMW_RET_TIMEOUT | RMW_RET_BAD_ALLOC | RMW_RET_INVALID_ARGUMENT

datatype rcutils_ret_t =
  RCUTILS_RET_OK | RCUTILS_RET_WARN | RCUTILS_RET_ERROR | RCUTILS_RET_BAD_ALLOC
  | RCUTILS_RET_INVALID_ARGUMENT

datatype ReturnCode_t =
  RETCODE_OK | RETCODE_ERROR | RETCODE_UNSUPPORTED | RETCODE_BAD_PARAMETER
  | RETCODE_PRECONDITION_NOT_MET | RETCODE_OUT_OF_RESOURCES | RETCODE_NOT_ENABLED
  | RETCODE_IMMUTABLE_POLICY | RETCODE_INCONSISTENT_POLICY | RETCODE_ALREADY_DELETED
  | RETCODE_TIMEOUT | RETCODE_NO_DATA | RETCODE_ILLEGAL_OPERATION

text \<open>
  Modelled from the spec: \<^verbatim>\<open>rmw_convert_rcutils_ret_to_rmw_ret\<close> is declared in
  \<^verbatim>\<open>rmw/convert_rcutils_ret_to_rmw_ret.h\<close>, outside the sources at hand. It maps each
  utility status to the interface status of the same name; in particular success maps to
  success and an allocation failure to \<open>RMW_RET_BAD_ALLOC\<close> (the spec's
  \<^verbatim>\<open>ResourceExhausted\<close>).
\<close>

fun rmw_convert_rcutils_ret_to_rmw_ret :: "rcutils_ret_t \<Rightarrow> rmw_ret_t" where
  "rmw_convert_rcutils_ret_to_rmw_ret RCUTILS_RET_OK = RMW_RET_OK"
| "rmw_convert_rcutils_ret_to_rmw_ret RCUTILS_RET_INVALID_ARGUMENT = RMW_RET_INVALID_ARGUMENT"
| "rmw_convert_rcutils_ret_to_rmw_ret RCUTILS_RET_BAD_ALLOC = RMW_RET_BAD_ALLOC"
| "rmw_convert_rcutils_ret_to_rmw_ret RCUTILS_RET_ERROR = RMW_RET_ERROR"
| "rmw_convert_rcutils_ret_to_rmw_ret RCUTILS_RET_WARN = RMW_RET_ERROR"

section \<open>Strings and the allocator\<close>

text \<open>
  A \<^verbatim>\<open>std::string\<close> and a \<^verbatim>\<open>std::vector<uint8_t>\<close> are lists of 8-bit characters
  (\<^typ>\<open>char\<close> is HOL's type of bytes); a \<^verbatim>\<open>const char *\<close> is a \<^typ>\<open>string option\<close>,
  \<open>None\<close> being the null pointer. Reading a character buffer as a C string stops at the
  first NUL byte.
\<close>

definition c_str :: "string \<Rightarrow> string" where
  "c_str s = takeWhile (\<lambda>c. c \<noteq> CHR 0x00) s"

text \<open>
  The allocator obtained from \<^verbatim>\<open>rcutils_get_default_allocator()\<close>. Whether a request is
  served is not decided by the program, so the model carries the answers to the coming
  requests (\<open>outcomes\<close>, oldest first; once the list is used up every request is served)
  and counts the blocks that are handed out and not yet given back (\<open>live\<close>).
\<close>

record rcutils_allocator_t =
  outcomes :: "bool list"
  live :: nat

definition allocate :: "rcutils_allocator_t \<Rightarrow> bool \<times> rcutils_allocator_t" where
  "allocate a =
     (case outcomes a of
        [] \<Rightarrow> (True, a\<lparr>live := Suc (live a)\<rparr>)
      | served # rest \<Rightarrow>
          (served, a\<lparr>outcomes := rest, live := (if served then Suc (live a) else live a)\<rparr>))"

definition deallocate :: "nat \<Rightarrow> rcutils_allocator_t \<Rightarrow> rcutils_allocator_t" where
  "deallocate k a = a\<lparr>live := live a - k\<rparr>"

text \<open>
  Modelled from the spec: \<^verbatim>\<open>rcutils_strdup\<close> is declared in \<^verbatim>\<open>rcutils/strdup.h\<close>,
  outside the sources at hand. It returns a fresh copy of the C string it is given, and the
  null pointer when it is given the null pointer or when the allocator refuses the request.
\<close>

definition rcutils_strdup ::
  "string option \<Rightarrow> rcutils_allocator_t \<Rightarrow> string option \<times> rcutils_allocator_t" where
  "rcutils_strdup str a =
     (case str of
        None \<Rightarrow> (None, a)
      | Some s \<Rightarrow>
          (case allocate a of (served, a') \<Rightarrow> (if served then Some (c_str s) else None, a')))"

section \<open>String arrays\<close>

text \<open>
  \<^verbatim>\<open>rcutils_string_array_t\<close>: its fields \<^verbatim>\<open>size\<close> and \<^verbatim>\<open>data\<close>, a pointer to
  a block of string pointers. The block is a list of \<^typ>\<open>string option\<close>; both the
  block pointer and each slot may be null.
\<close>

record rcutils_string_array_t =
  array_size :: nat
  array_data :: "string option list option"

definition rcutils_get_zero_initialized_string_array :: rcutils_string_array_t where
  "rcutils_get_zero_initialized_string_array = \<lparr>array_size = 0, array_data = None\<rparr>"

text \<open>
  Modelled from the spec: \<^verbatim>\<open>rmw_check_zero_rmw_string_array\<close> is declared in
  \<^verbatim>\<open>rmw/sanity_checks.h\<close>, outside the sources at hand. It accepts exactly a non-null
  pointer to an array in the zero-initialized state.
\<close>

definition rmw_check_zero_rmw_string_array :: "rcutils_string_array_t option \<Rightarrow> rmw_ret_t" where
  "rmw_check_zero_rmw_string_array array =
     (case array of
        None \<Rightarrow> RMW_RET_ERROR
      | Some arr \<Rightarrow>
          if array_size arr \<noteq> 0 then RMW_RET_ERROR
          else if array_data arr \<noteq> None then RMW_RET_ERROR
          else RMW_RET_OK)"

text \<open>
  Modelled from the spec: \<^verbatim>\<open>rcutils_string_array_init\<close> and
  \<^verbatim>\<open>rcutils_string_array_fini\<close> are declared in \<^verbatim>\<open>rcutils/types/string_array.h\<close>,
  outside the sources at hand ("string-array allocation utilities", specified at their
  interface). \<open>init\<close> requests one block for \<open>n\<close> null slots; when the request is refused it
  reports \<open>RCUTILS_RET_BAD_ALLOC\<close> and the array holds no storage. \<open>fini\<close> gives back every
  string of the array and the block itself and leaves the array in the zero-initialized
  state; an array without a block is left as it is. Both report
  \<open>RCUTILS_RET_INVALID_ARGUMENT\<close> for a null array pointer. \<open>string_array_init\<close> and
  \<open>string_array_fini\<close> are the two functions past their null-pointer check, as they are
  used on the address of a local array.
\<close>

definition string_array_init ::
  "rcutils_string_array_t \<Rightarrow> nat \<Rightarrow> rcutils_allocator_t \<Rightarrow>
   rcutils_ret_t \<times> rcutils_string_array_t \<times> rcutils_allocator_t" where
  "string_array_init arr n a =
     (case allocate a of (served, a') \<Rightarrow>
        if served
        then (RCUTILS_RET_OK, \<lparr>array_size = n, array_data = Some (replicate n None)\<rparr>, a')
        else (RCUTILS_RET_BAD_ALLOC, arr, a'))"

definition string_array_fini ::
  "rcutils_string_array_t \<Rightarrow> rcutils_allocator_t \<Rightarrow>
   rcutils_ret_t \<times> rcutils_string_array_t \<times> rcutils_allocator_t" where
  "string_array_fini arr a =
     (case array_data arr of
        None \<Rightarrow> (RCUTILS_RET_OK, arr, a)
      | Some slots \<Rightarrow>
          (RCUTILS_RET_OK, rcutils_get_zero_initialized_string_array,
           deallocate (Suc (length (filter (\<lambda>s. s \<noteq> None) (take (array_size arr) slots)))) a))"

definition rcutils_string_array_init ::
  "rcutils_string_array_t option \<Rightarrow> nat \<Rightarrow> rcutils_allocator_t \<Rightarrow>
   rcutils_ret_t \<times> rcutils_string_array_t option \<times> rcutils_allocator_t" where
  "rcutils_string_array_init string_array n a =
     (case string_array of
        None \<Rightarrow> (RCUTILS_RET_INVALID_ARGUMENT, None, a)
      | Some arr \<Rightarrow> (case string_array_init arr n a of (r, arr', a') \<Rightarrow> (r, Some arr', a')))"

definition rcutils_string_array_fini ::
  "rcutils_string_array_t option \<Rightarrow> rcutils_allocator_t \<Rightarrow>
   rcutils_ret_t \<times> rcutils_string_array_t option \<times> rcutils_allocator_t" where
  "rcutils_string_array_fini string_array a =
     (case string_array of
        None \<Rightarrow> (RCUTILS_RET_INVALID_ARGUMENT, None, a)
      | Some arr \<Rightarrow> (case string_array_fini arr a of (r, arr', a') \<Rightarrow> (r, Some arr', a')))"

text \<open>
  Slot accesses \<^verbatim>\<open>array.data[i]\<close>. C leaves an access through a null block pointer or
  beyond the block undefined; the model answers \<open>None\<close> there, so that such an access is a
  visible outcome of the function that performs it.
\<close>

definition store ::
  "rcutils_string_array_t \<Rightarrow> nat \<Rightarrow> string option \<Rightarrow> rcutils_string_array_t option" where
  "store arr i v =
     (case array_data arr of
        None \<Rightarrow> None
      | Some slots \<Rightarrow>
          if i < length slots then Some (arr\<lparr>array_data := Some (slots[i := v])\<rparr>) else None)"

definition load :: "rcutils_string_array_t \<Rightarrow> nat \<Rightarrow> string option option" where
  "load arr i =
     (case array_data arr of
        None \<Rightarrow> None
      | Some slots \<Rightarrow> if i < length slots then Some (slots ! i) else None)"

section \<open>The transport's view of a participant\<close>

text \<open>
  What \<^verbatim>\<open>get_node_names\<close> asks of the \<^verbatim>\<open>DDS::DomainParticipant\<close> behind a node: the
  handles of the discovered participants, its own QoS (of which only
  \<^verbatim>\<open>participant_name.name\<close> is read) and the built-in topic data of one discovered
  participant. Each answer comes with the transport's return code.
\<close>

type_synonym InstanceHandle_t = nat

record ParticipantBuiltinTopicData =
  user_data :: "char list"
  participant_name :: "string option"

record DomainParticipant =
  get_discovered_participants :: "ReturnCode_t \<times> InstanceHandle_t list"
  get_qos :: "ReturnCode_t \<times> string option"
  get_discovered_participant_data ::
    "InstanceHandle_t \<Rightarrow> ReturnCode_t \<times> ParticipantBuiltinTopicData"

text \<open>
  \<^verbatim>\<open>rmw_node_t\<close>: its fields \<^verbatim>\<open>implementation_identifier\<close> and
  \<^verbatim>\<open>namespace_\<close>, and the participant that \<^verbatim>\<open>node->data\<close> leads to. The
  implementation identifiers are compared as pointers in the source; here they are
  compared as values.
\<close>

record rmw_node_t =
  node_implementation_identifier :: string
  node_namespace :: "string option"
  node_participant :: DomainParticipant

section \<open>get\_node\_names\<close>

text \<open>
  The local variables of \<^verbatim>\<open>get_node_names\<close> that live across its stages, together with
  the two output arrays the caller passed by pointer.
\<close>

record frame =
  node_names :: "rcutils_string_array_t option"
  node_namespaces :: "rcutils_string_array_t option"
  tmp_names_list :: rcutils_string_array_t
  tmp_namespaces_list :: rcutils_string_array_t
  named_nodes_num :: nat
  rcutils_ret :: rcutils_ret_t
  final_ret :: rmw_ret_t
  allocator :: rcutils_allocator_t

text \<open>
  Where control goes after a stage: on to the next statement, to the \<^verbatim>\<open>cleanup\<close> label,
  or nowhere defined (an access outside a block).
\<close>

datatype flow = Next frame | Goto_cleanup frame | Undefined_behaviour

text \<open>What the caller observes when the function returns.\<close>

record call_result =
  ret :: rmw_ret_t
  names_out :: "rcutils_string_array_t option"
  namespaces_out :: "rcutils_string_array_t option"
  allocator_out :: rcutils_allocator_t

text \<open>Lines 74--93: the two temporary arrays of \<open>len\<close> slots each.\<close>

definition allocate_temporaries ::
  "rcutils_string_array_t option \<Rightarrow> rcutils_string_array_t option \<Rightarrow> nat \<Rightarrow>
   rcutils_allocator_t \<Rightarrow> flow" where
  "allocate_temporaries names namespaces len a =
     (case string_array_init rcutils_get_zero_initialized_string_array len a of
        (r1, tmp_names, a1) \<Rightarrow>
          let f = \<lparr>node_names = names, node_namespaces = namespaces,
                   tmp_names_list = tmp_names,
                   tmp_namespaces_list = rcutils_get_zero_initialized_string_array,
                   named_nodes_num = 1, rcutils_ret = r1, final_ret = RMW_RET_OK,
                   allocator = a1\<rparr>
          in if r1 \<noteq> RCUTILS_RET_OK
             then Goto_cleanup (f\<lparr>final_ret := rmw_convert_rcutils_ret_to_rmw_ret r1\<rparr>)
             else (case string_array_init (tmp_namespaces_list f) len (allocator f) of
                     (r2, tmp_namespaces, a2) \<Rightarrow>
                       let g = f\<lparr>tmp_namespaces_list := tmp_namespaces, rcutils_ret := r2,
                                 allocator := a2\<rparr>
                       in if r2 \<noteq> RCUTILS_RET_OK
                          then Goto_cleanup
                                 (g\<lparr>final_ret := rmw_convert_rcutils_ret_to_rmw_ret r2\<rparr>)
                          else Next g))"

text \<open>
  Lines 95--107: slot 0 receives the caller's own participant name and the node's
  namespace. On a null copy the source converts \<open>rcutils_ret\<close>, the status of the last
  array initialisation, into the status to return.
\<close>

definition add_yourself :: "string option \<Rightarrow> string option \<Rightarrow> frame \<Rightarrow> flow" where
  "add_yourself own_name own_namespace f =
     (case rcutils_strdup own_name (allocator f) of (p, a1) \<Rightarrow>
        (case store (tmp_names_list f) 0 p of
           None \<Rightarrow> Undefined_behaviour
         | Some tn \<Rightarrow>
             let g = f\<lparr>tmp_names_list := tn, allocator := a1\<rparr>
             in if p = None
                then Goto_cleanup
                       (g\<lparr>final_ret := rmw_convert_rcutils_ret_to_rmw_ret (rcutils_ret g)\<rparr>)
                else (case rcutils_strdup own_namespace (allocator g) of (q, a2) \<Rightarrow>
                        (case store (tmp_namespaces_list g) 0 q of
                           None \<Rightarrow> Undefined_behaviour
                         | Some tns \<Rightarrow>
                             let h = g\<lparr>tmp_namespaces_list := tns, allocator := a2\<rparr>
                             in if q = None
                                then Goto_cleanup
                                       (h\<lparr>final_ret :=
                                            rmw_convert_rcutils_ret_to_rmw_ret (rcutils_ret h)\<rparr>)
                                else Next h))))"

text \<open>
  Lines 110--137: the name and namespace of one discovered participant. The parser of the
  user-data blob, \<^verbatim>\<open>rmw::impl::cpp::parse_key_value\<close>, is declared outside the sources
  at hand and is a parameter of the model.
\<close>

definition resolve ::
  "(char list \<Rightarrow> string \<rightharpoonup> char list) \<Rightarrow> DomainParticipant \<Rightarrow> InstanceHandle_t \<Rightarrow>
   string \<times> string" where
  "resolve parse_key_value participant handle =
     (case get_discovered_participant_data participant handle of (dds_ret, pbtd) \<Rightarrow>
        if dds_ret = RETCODE_OK
        then (let kv = parse_key_value (user_data pbtd);
                  name = (case kv ''name'' of Some v \<Rightarrow> v | None \<Rightarrow> []);
                  ns = (case kv ''namespace'' of Some v \<Rightarrow> v | None \<Rightarrow> [])
              in if name = []
                 then (case participant_name pbtd of
                         Some pname \<Rightarrow> (c_str pname, ns)
                       | None \<Rightarrow> (name, ns))
                 else (name, ns))
        else ([], []))"

text \<open>Lines 109--161: one turn of the discovery loop, for loop index \<open>i\<close>.\<close>

definition loop_body ::
  "(char list \<Rightarrow> string \<rightharpoonup> char list) \<Rightarrow> DomainParticipant \<Rightarrow> InstanceHandle_t list \<Rightarrow>
   nat \<Rightarrow> frame \<Rightarrow> flow" where
  "loop_body parse_key_value participant handles i f =
     (case resolve parse_key_value participant (handles ! (i - 1)) of (name, ns) \<Rightarrow>
        if name = []
        then (case store (tmp_names_list f) i None of
                None \<Rightarrow> Undefined_behaviour
              | Some tn \<Rightarrow>
                  (case store (tmp_namespaces_list f) i None of
                     None \<Rightarrow> Undefined_behaviour
                   | Some tns \<Rightarrow> Next (f\<lparr>tmp_names_list := tn, tmp_namespaces_list := tns\<rparr>)))
        else (case rcutils_strdup (Some name) (allocator f) of (p, a1) \<Rightarrow>
                (case store (tmp_names_list f) (named_nodes_num f) p of
                   None \<Rightarrow> Undefined_behaviour
                 | Some tn \<Rightarrow>
                     let g = f\<lparr>tmp_names_list := tn, allocator := a1\<rparr>
                     in if p = None
                        then Goto_cleanup
                               (g\<lparr>final_ret :=
                                    rmw_convert_rcutils_ret_to_rmw_ret (rcutils_ret g)\<rparr>)
                        else (case rcutils_strdup (Some ns) (allocator g) of (q, a2) \<Rightarrow>
                                (case store (tmp_namespaces_list g) (named_nodes_num g) q of
                                   None \<Rightarrow> Undefined_behaviour
                                 | Some tns \<Rightarrow>
                                     let h = g\<lparr>tmp_namespaces_list := tns, allocator := a2\<rparr>
                                     in if q = None
                                        then Goto_cleanup
                                               (h\<lparr>final_ret :=
                                                    rmw_convert_rcutils_ret_to_rmw_ret
                                                      (rcutils_ret h)\<rparr>)
                                        else Next
                                               (h\<lparr>named_nodes_num :=
                                                    Suc (named_nodes_num h)\<rparr>))))))"

function discover_loop ::
  "(char list \<Rightarrow> string \<rightharpoonup> char list) \<Rightarrow> DomainParticipant \<Rightarrow> InstanceHandle_t list \<Rightarrow>
   nat \<Rightarrow> nat \<Rightarrow> frame \<Rightarrow> flow" where
  "discover_loop parse_key_value participant handles len i f =
     (if i < len
      then (case loop_body parse_key_value participant handles i f of
              Next f' \<Rightarrow> discover_loop parse_key_value participant handles len (Suc i) f'
            | Goto_cleanup f' \<Rightarrow> Goto_cleanup f'
            | Undefined_behaviour \<Rightarrow> Undefined_behaviour)
      else Next f)"
  by pat_completeness auto
termination
  by (relation "measure (\<lambda>(parse_key_value, participant, handles, len, i, f). len - i)") auto

declare discover_loop.simps [simp del]

text \<open>
  Lines 179--185: one turn of the copy loop. The copies are not checked, and the slot of
  the temporary array is overwritten with the null pointer.
\<close>

definition copy_body :: "nat \<Rightarrow> frame \<Rightarrow> flow" where
  "copy_body i f =
     (case (node_names f, node_namespaces f) of
        (Some names, Some namespaces) \<Rightarrow>
          (case load (tmp_names_list f) i of
             None \<Rightarrow> Undefined_behaviour
           | Some src_name \<Rightarrow>
               (case rcutils_strdup src_name (allocator f) of (p, a1) \<Rightarrow>
                  (case (store names i p, store (tmp_names_list f) i None) of
                     (Some names', Some tn) \<Rightarrow>
                       (case load (tmp_namespaces_list f) i of
                          None \<Rightarrow> Undefined_behaviour
                        | Some src_namespace \<Rightarrow>
                            (case rcutils_strdup src_namespace a1 of (q, a2) \<Rightarrow>
                               (case (store namespaces i q,
                                      store (tmp_namespaces_list f) i None) of
                                  (Some namespaces', Some tns) \<Rightarrow>
                                    Next (f\<lparr>node_names := Some names',
                                            node_namespaces := Some namespaces',
                                            tmp_names_list := tn,
                                            tmp_namespaces_list := tns,
                                            allocator := a2\<rparr>)
                                | _ \<Rightarrow> Undefined_behaviour)))
                   | _ \<Rightarrow> Undefined_behaviour)))
      | _ \<Rightarrow> Undefined_behaviour)"

function copy_loop :: "nat \<Rightarrow> frame \<Rightarrow> flow" where
  "copy_loop i f =
     (if i < named_nodes_num f
      then (case copy_body i f of
              Next f' \<Rightarrow> copy_loop (Suc i) f'
            | Goto_cleanup f' \<Rightarrow> Goto_cleanup f'
            | Undefined_behaviour \<Rightarrow> Undefined_behaviour)
      else Next f)"
  by pat_completeness auto
termination
  by (relation "measure (\<lambda>(i, f). named_nodes_num f - i)")
     (auto simp: copy_body_def split: option.splits prod.splits)

declare copy_loop.simps [simp del]

text \<open>
  Lines 163--201: the output arrays of exactly \<open>named_nodes_num\<close> slots, the copy loop and
  the release of the temporary arrays. \<open>Next\<close> stands for reaching
  \<^verbatim>\<open>return RMW_RET_OK\<close>.
\<close>

definition prepare_output :: "frame \<Rightarrow> flow" where
  "prepare_output f =
     (case rcutils_string_array_init (node_names f) (named_nodes_num f) (allocator f) of
        (r1, names, a1) \<Rightarrow>
          let g = f\<lparr>node_names := names, rcutils_ret := r1, allocator := a1\<rparr>
          in if r1 \<noteq> RCUTILS_RET_OK
             then Goto_cleanup (g\<lparr>final_ret := rmw_convert_rcutils_ret_to_rmw_ret r1\<rparr>)
             else (case rcutils_string_array_init (node_namespaces g) (named_nodes_num g)
                          (allocator g) of
                     (r2, namespaces, a2) \<Rightarrow>
                       let h = g\<lparr>node_namespaces := namespaces, rcutils_ret := r2,
                                 allocator := a2\<rparr>
                       in if r2 \<noteq> RCUTILS_RET_OK
                          then Goto_cleanup
                                 (h\<lparr>final_ret := rmw_convert_rcutils_ret_to_rmw_ret r2\<rparr>)
                          else (case copy_loop 0 h of
                                  Next k \<Rightarrow>
                                    (case string_array_fini (tmp_names_list k) (allocator k) of
                                       (r3, tn, a3) \<Rightarrow>
                                         let l = k\<lparr>tmp_names_list := tn, rcutils_ret := r3,
                                                   allocator := a3\<rparr>
                                         in if r3 \<noteq> RCUTILS_RET_OK
                                            then Goto_cleanup
                                                   (l\<lparr>final_ret :=
                                                        rmw_convert_rcutils_ret_to_rmw_ret r3\<rparr>)
                                            else (case string_array_fini (tmp_namespaces_list l)
                                                         (allocator l) of
                                                    (r4, tns, a4) \<Rightarrow>
                                                      let m = l\<lparr>tmp_namespaces_list := tns,
                                                                rcutils_ret := r4,
                                                                allocator := a4\<rparr>
                                                      in if r4 \<noteq> RCUTILS_RET_OK
                                                         then Goto_cleanup
                                                                (m\<lparr>final_ret :=
                                                                     rmw_convert_rcutils_ret_to_rmw_ret
                                                                       r4\<rparr>)
                                                         else Next m))
                                | Goto_cleanup k \<Rightarrow> Goto_cleanup k
                                | Undefined_behaviour \<Rightarrow> Undefined_behaviour)))"

text \<open>
  Lines 203--243, the \<^verbatim>\<open>cleanup\<close> label: each output array that is not a null pointer
  is finalised, then both temporary arrays; the statuses of these calls are only logged.
  The function returns \<open>final_ret\<close>.
\<close>

definition cleanup :: "frame \<Rightarrow> call_result" where
  "cleanup f =
     (case (if node_names f \<noteq> None
            then (case rcutils_string_array_fini (node_names f) (allocator f) of
                    (r, names, a) \<Rightarrow> (names, a))
            else (node_names f, allocator f)) of
        (names, a1) \<Rightarrow>
          (case (if node_namespaces f \<noteq> None
                 then (case rcutils_string_array_fini (node_namespaces f) a1 of
                         (r, namespaces, a) \<Rightarrow> (namespaces, a))
                 else (node_namespaces f, a1)) of
             (namespaces, a2) \<Rightarrow>
               (case string_array_fini (tmp_names_list f) a2 of (r3, tn, a3) \<Rightarrow>
                  (case string_array_fini (tmp_namespaces_list f) a3 of (r4, tns, a4) \<Rightarrow>
                     \<lparr>ret = final_ret f, names_out = names, namespaces_out = namespaces,
                      allocator_out = a4\<rparr>))))"

text \<open>
  Lines 65--243, entered once the participant's handles and QoS are at hand: the stages
  in sequence. A stage that leaves for \<^verbatim>\<open>cleanup\<close> skips the remaining ones.
\<close>

definition assemble ::
  "(char list \<Rightarrow> string \<rightharpoonup> char list) \<Rightarrow> DomainParticipant \<Rightarrow> InstanceHandle_t list \<Rightarrow>
   string option \<Rightarrow> string option \<Rightarrow> rcutils_string_array_t option \<Rightarrow>
   rcutils_string_array_t option \<Rightarrow> rcutils_allocator_t \<Rightarrow> flow" where
  "assemble parse_key_value participant handles own_name own_namespace names namespaces a =
     (let len = length handles + 1
      in case allocate_temporaries names namespaces len a of
           Next f1 \<Rightarrow>
             (case add_yourself own_name own_namespace f1 of
                Next f2 \<Rightarrow>
                  (case discover_loop parse_key_value participant handles len 1 f2 of
                     Next f3 \<Rightarrow> prepare_output f3
                   | Goto_cleanup f3 \<Rightarrow> Goto_cleanup f3
                   | Undefined_behaviour \<Rightarrow> Undefined_behaviour)
              | Goto_cleanup f2 \<Rightarrow> Goto_cleanup f2
              | Undefined_behaviour \<Rightarrow> Undefined_behaviour)
         | Goto_cleanup f1 \<Rightarrow> Goto_cleanup f1
         | Undefined_behaviour \<Rightarrow> Undefined_behaviour)"

text \<open>
  The whole function. The early returns (lines 37--63) hand back the output arrays and the
  allocator untouched. The result is \<open>None\<close> when an access outside a block occurred.
\<close>

definition get_node_names ::
  "(char list \<Rightarrow> string \<rightharpoonup> char list) \<Rightarrow> rcutils_allocator_t \<Rightarrow> string \<Rightarrow>
   rmw_node_t option \<Rightarrow> rcutils_string_array_t option \<Rightarrow> rcutils_string_array_t option \<Rightarrow>
   call_result option" where
  "get_node_names parse_key_value default_allocator implementation_identifier node names
     namespaces =
     (let early = \<lparr>ret = RMW_RET_ERROR, names_out = names, namespaces_out = namespaces,
                    allocator_out = default_allocator\<rparr>
      in case node of
           None \<Rightarrow> Some early
         | Some n \<Rightarrow>
             if node_implementation_identifier n \<noteq> implementation_identifier then Some early
             else if rmw_check_zero_rmw_string_array names \<noteq> RMW_RET_OK then Some early
             else (let participant = node_participant n
                   in case get_discovered_participants participant of (r, handles) \<Rightarrow>
                        if r \<noteq> RETCODE_OK then Some early
                        else (case get_qos participant of (status, own_name) \<Rightarrow>
                                if status \<noteq> RETCODE_OK then Some early
                                else (case assemble parse_key_value participant handles own_name
                                             (node_namespace n) names namespaces default_allocator of
                                        Next f \<Rightarrow>
                                          Some \<lparr>ret = RMW_RET_OK, names_out = node_names f,
                                                namespaces_out = node_namespaces f,
                                                allocator_out = allocator f\<rparr>
                                      | Goto_cleanup f \<Rightarrow> Some (cleanup f)
                                      | Undefined_behaviour \<Rightarrow> None))))"

section \<open>The publisher listener\<close>

text \<open>
  \<^verbatim>\<open>CustomPublisherListener::on_data_available\<close>. The listener acts on its base class
  (\<^verbatim>\<open>add_information\<close>, \<^verbatim>\<open>remove_information\<close>,
  \<^verbatim>\<open>trigger_graph_guard_condition\<close>) and on the reader (\<^verbatim>\<open>return_loan\<close>), all
  declared outside the sources at hand; the model records the calls it makes, in order.
\<close>

type_synonym BuiltinTopicKey_t = nat

type_synonym GUID_t = "char list"

datatype EntityType = Participant | Publisher | Subscriber

datatype InstanceStateKind =
  ALIVE_INSTANCE_STATE | NOT_ALIVE_DISPOSED_INSTANCE_STATE | NOT_ALIVE_NO_WRITERS_INSTANCE_STATE

record SampleInfo =
  instance_handle :: InstanceHandle_t
  valid_data :: bool
  instance_state :: InstanceStateKind

record PublicationBuiltinTopicData =
  participant_key :: BuiltinTopicKey_t
  topic_name :: string
  type_name :: string

datatype listener_call =
    add_information GUID_t GUID_t string string EntityType
  | remove_information GUID_t EntityType
  | trigger_graph_guard_condition
  | return_loan
  | fprintf_stderr string

text \<open>
  A reader either is the built-in publication reader, which answers \<^verbatim>\<open>take\<close> with a
  return code and the samples, or is some other reader. \<^verbatim>\<open>take\<close> fills
  \<^verbatim>\<open>data_seq\<close> and \<^verbatim>\<open>info_seq\<close> to the same length, so the two sequences are one
  list of pairs, read at index \<open>i\<close> as the source reads them.
\<close>

type_synonym samples = "(PublicationBuiltinTopicData \<times> SampleInfo) list"

datatype DataReader =
    PublicationBuiltinTopicDataDataReader "ReturnCode_t \<times> samples"
  | Other_DataReader

fun narrow :: "DataReader option \<Rightarrow> (ReturnCode_t \<times> samples) option" where
  "narrow (Some (PublicationBuiltinTopicDataDataReader taken)) = Some taken"
| "narrow (Some Other_DataReader) = None"
| "narrow None = None"

text \<open>
  Lines 48--65: what is done with sample \<open>i\<close>. The two GUID conversions of
  \<^verbatim>\<open>guid_helper.hpp\<close> are parameters of the model.
\<close>

definition process_sample ::
  "(InstanceHandle_t \<Rightarrow> GUID_t) \<Rightarrow> (BuiltinTopicKey_t \<Rightarrow> GUID_t) \<Rightarrow>
   PublicationBuiltinTopicData \<Rightarrow> SampleInfo \<Rightarrow> listener_call" where
  "process_sample DDS_InstanceHandle_to_GUID DDS_BuiltinTopicKey_to_GUID data info =
     (let guid = DDS_InstanceHandle_to_GUID (instance_handle info)
      in if valid_data info \<and> instance_state info = ALIVE_INSTANCE_STATE
         then (let participant_guid = DDS_BuiltinTopicKey_to_GUID (participant_key data)
               in add_information participant_guid guid (topic_name data) (type_name data)
                    Publisher)
         else remove_information guid Publisher)"

function sample_loop ::
  "(InstanceHandle_t \<Rightarrow> GUID_t) \<Rightarrow> (BuiltinTopicKey_t \<Rightarrow> GUID_t) \<Rightarrow> samples \<Rightarrow> nat \<Rightarrow>
   listener_call list" where
  "sample_loop DDS_InstanceHandle_to_GUID DDS_BuiltinTopicKey_to_GUID seq i =
     (if i < length seq
      then process_sample DDS_InstanceHandle_to_GUID DDS_BuiltinTopicKey_to_GUID
             (fst (seq ! i)) (snd (seq ! i))
           # sample_loop DDS_InstanceHandle_to_GUID DDS_BuiltinTopicKey_to_GUID seq (Suc i)
      else [])"
  by pat_completeness auto
termination
  by (relation "measure (\<lambda>(h, k, seq, i). length seq - i)") auto

declare sample_loop.simps [simp del]

definition on_data_available ::
  "(InstanceHandle_t \<Rightarrow> GUID_t) \<Rightarrow> (BuiltinTopicKey_t \<Rightarrow> GUID_t) \<Rightarrow> DataReader option \<Rightarrow>
   listener_call list" where
  "on_data_available DDS_InstanceHandle_to_GUID DDS_BuiltinTopicKey_to_GUID reader =
     (case narrow reader of
        None \<Rightarrow>
          [fprintf_stderr ''failed to narrow to DDS::PublicationBuiltinTopicDataDataReader'']
      | Some (retcode, seq) \<Rightarrow>
          if retcode = RETCODE_NO_DATA then []
          else if retcode \<noteq> RETCODE_OK
          then [fprintf_stderr ''failed to access data from the built-in reader'']
          else sample_loop DDS_InstanceHandle_to_GUID DDS_BuiltinTopicKey_to_GUID seq 0
               @ (if length seq > 0 then [trigger_graph_guard_condition] else [])
               @ [return_loan])"

text \<open>The calls that reach the cache, and the number of guard-condition triggers.\<close>

fun is_cache_call :: "listener_call \<Rightarrow> bool" where
  "is_cache_call (add_information pg g topic type kind) = True"
| "is_cache_call (remove_information g kind) = True"
| "is_cache_call other = False"

definition cache_calls :: "listener_call list \<Rightarrow> listener_call list" where
  "cache_calls calls = filter is_cache_call calls"

definition trigger_count :: "listener_call list \<Rightarrow> nat" where
  "trigger_count calls = length (filter (\<lambda>c. c = trigger_graph_guard_condition) calls)"

section \<open>Notions for stating and proving properties of get\_node\_names\<close>

text \<open>
  A temporary array of \<open>len\<close> slots whose first slots hold the strings \<open>xs\<close> and whose
  remaining slots are null.
\<close>

definition filled :: "nat \<Rightarrow> string list \<Rightarrow> rcutils_string_array_t" where
  "filled len xs =
     \<lparr>array_size = len, array_data = Some (map Some xs @ replicate (len - length xs) None)\<rparr>"

text \<open>
  The number of blocks an array holds: its block of slots and one block per string
  within its size.
\<close>

definition held :: "rcutils_string_array_t \<Rightarrow> nat" where
  "held arr =
     (case array_data arr of
        None \<Rightarrow> 0
      | Some slots \<Rightarrow> Suc (length (filter (\<lambda>s. s \<noteq> None) (take (array_size arr) slots))))"

text \<open>
  An allocator that serves every coming request.
\<close>

definition never_refuses :: "rcutils_allocator_t \<Rightarrow> bool" where
  "never_refuses a \<longleftrightarrow> False \<notin> set (outcomes a)"

text \<open>
  The discovered participants with a non-empty resolved name, in discovery order, each
  with its namespace.
\<close>

definition named_pairs ::
  "(char list \<Rightarrow> string \<rightharpoonup> char list) \<Rightarrow> DomainParticipant \<Rightarrow> InstanceHandle_t list \<Rightarrow>
   (string \<times> string) list" where
  "named_pairs pkv p hs = filter (\<lambda>(name, ns). name \<noteq> []) (map (resolve pkv p) hs)"

text \<open>
  The frame between two turns of the discovery loop: \<open>xs\<close> and \<open>ys\<close> are the names and
  namespaces gathered so far.
\<close>

definition at_loop ::
  "rcutils_string_array_t option \<Rightarrow> rcutils_string_array_t option \<Rightarrow> nat \<Rightarrow> string list \<Rightarrow>
   string list \<Rightarrow> rcutils_allocator_t \<Rightarrow> frame" where
  "at_loop names nss len xs ys a =
     \<lparr>node_names = names, node_namespaces = nss, tmp_names_list = filled len xs,
      tmp_namespaces_list = filled len ys, named_nodes_num = length xs,
      rcutils_ret = RCUTILS_RET_OK, final_ret = RMW_RET_OK, allocator = a\<rparr>"

text \<open>
  A frame on its way to \<^verbatim>\<open>cleanup\<close> in which the output arrays are still the caller's
  and every block requested since the allocator held \<open>L\<close> blocks sits in a temporary array.
\<close>

definition leaves_clean ::
  "nat \<Rightarrow> rcutils_string_array_t option \<Rightarrow> rcutils_string_array_t option \<Rightarrow> frame \<Rightarrow> bool" where
  "leaves_clean L names nss g \<longleftrightarrow>
     node_names g = names \<and> node_namespaces g = nss \<and>
     live (allocator g) = L + held (tmp_names_list g) + held (tmp_namespaces_list g)"

text \<open>
  An array of \<open>n\<close> slots whose first slots are \<open>us\<close>, the others null.
\<close>

definition partial_array :: "nat \<Rightarrow> string option list \<Rightarrow> rcutils_string_array_t" where
  "partial_array n us = \<lparr>array_size = n, array_data = Some (us @ replicate (n - length us) None)\<rparr>"

text \<open>
  The slots of a temporary array in the copy loop: the first \<open>i\<close> have been overwritten
  with null.
\<close>

definition drained :: "nat \<Rightarrow> string list \<Rightarrow> string option list" where
  "drained i xs = replicate i None @ map Some (drop i xs)"

text \<open>
  The frame between two turns of the copy loop.
\<close>

definition at_copy ::
  "nat \<Rightarrow> nat \<Rightarrow> nat \<Rightarrow> string option list \<Rightarrow> string option list \<Rightarrow> string list \<Rightarrow>
   string list \<Rightarrow> rcutils_allocator_t \<Rightarrow> frame" where
  "at_copy n len i us vs xs ys a =
     \<lparr>node_names = Some (partial_array n us), node_namespaces = Some (partial_array n vs),
      tmp_names_list = partial_array len (drained i xs),
      tmp_namespaces_list = partial_array len (drained i ys), named_nodes_num = n,
      rcutils_ret = RCUTILS_RET_OK, final_ret = RMW_RET_OK, allocator = a\<rparr>"

text \<open>
  What \<^verbatim>\<open>rcutils_strdup\<close> may leave in a slot for the string \<open>x\<close>: its copy, or null.
\<close>

definition copy_of :: "string option \<Rightarrow> string \<Rightarrow> bool" where
  "copy_of u x \<longleftrightarrow> u = None \<or> u = Some (c_str x)"

text \<open>
  An output array pointer after \<^verbatim>\<open>cleanup\<close>.
\<close>

definition finalised :: "rcutils_string_array_t option \<Rightarrow> rcutils_string_array_t option" where
  "finalised ptr =
     map_option (\<lambda>arr. if array_data arr = None then arr
                        else rcutils_get_zero_initialized_string_array) ptr"

text \<open>
  The blocks held by the array behind a pointer.
\<close>

definition held_ptr :: "rcutils_string_array_t option \<Rightarrow> nat" where
  "held_ptr ptr = (case ptr of None \<Rightarrow> 0 | Some arr \<Rightarrow> held arr)"

text \<open>
  The caller's own entry followed by the named discovered participants.
\<close>

definition own_and_named ::
  "(char list \<Rightarrow> string \<rightharpoonup> char list) \<Rightarrow> DomainParticipant \<Rightarrow> InstanceHandle_t list \<Rightarrow>
   string \<Rightarrow> string \<Rightarrow> (string \<times> string) list" where
  "own_and_named pkv p hs x y = (x, y) # named_pairs pkv p hs"

text \<open>
  What the caller observes after one of the early returns of lines 37--63.
\<close>

definition early_return ::
  "rcutils_string_array_t option \<Rightarrow> rcutils_string_array_t option \<Rightarrow> rcutils_allocator_t \<Rightarrow>
   call_result" where
  "early_return names nss a =
     \<lparr>ret = RMW_RET_ERROR, names_out = names, namespaces_out = nss, allocator_out = a\<rparr>"

text \<open>
  What the caller observes once the stages of lines 65--243 have run.
\<close>

definition after_assembly :: "flow \<Rightarrow> call_result option" where
  "after_assembly fl =
     (case fl of
        Next f \<Rightarrow>
          Some \<lparr>ret = RMW_RET_OK, names_out = node_names f,
                namespaces_out = node_namespaces f, allocator_out = allocator f\<rparr>
      | Goto_cleanup f \<Rightarrow> Some (cleanup f)
      | Undefined_behaviour \<Rightarrow> None)"

text \<open>
  \<open>iteration pkv p hs f0 i f\<close>: the discovery loop, entered with frame \<open>f0\<close>, stands at the
  start of turn \<open>i\<close> (its test \<open>i < length\<close> about to be evaluated) with frame \<open>f\<close>.
\<close>

inductive iteration ::
  "(char list \<Rightarrow> string \<rightharpoonup> char list) \<Rightarrow> DomainParticipant \<Rightarrow> InstanceHandle_t list \<Rightarrow>
   frame \<Rightarrow> nat \<Rightarrow> frame \<Rightarrow> bool"
  for pkv p hs f0 where
    first: "iteration pkv p hs f0 1 f0"
  | step: "iteration pkv p hs f0 i f \<Longrightarrow> i < length hs + 1 \<Longrightarrow>
           loop_body pkv p hs i f = Next f' \<Longrightarrow> iteration pkv p hs f0 (Suc i) f'"

text \<open>
  Example inputs. A parser that knows two user-data blobs; a participant that has
  discovered four others (10 announces a name and a namespace in its user data, the data
  of 11 cannot be fetched, 12 announces only a namespace and has the transport-level name
  \<open>pname\<close>, 13 has no name at all); and the node \<open>talker\<close> in namespace \<open>/\<close> on that
  participant.
\<close>

definition fleet_parser :: "char list \<Rightarrow> string \<rightharpoonup> char list" where
  "fleet_parser kv =
     (if kv = ''name=robot1;namespace=/fleet;''
      then [''name'' \<mapsto> ''robot1'', ''namespace'' \<mapsto> ''/fleet'']
      else if kv = ''namespace=/ns;'' then [''namespace'' \<mapsto> ''/ns'']
      else Map.empty)"

definition fleet :: DomainParticipant where
  "fleet =
     \<lparr>get_discovered_participants = (RETCODE_OK, [10, 11, 12, 13]),
      get_qos = (RETCODE_OK, Some ''talker''),
      get_discovered_participant_data = (\<lambda>handle.
        if handle = 10
        then (RETCODE_OK,
              \<lparr>user_data = ''name=robot1;namespace=/fleet;'', participant_name = None\<rparr>)
        else if handle = 11
        then (RETCODE_ERROR, \<lparr>user_data = [], participant_name = None\<rparr>)
        else if handle = 12
        then (RETCODE_OK, \<lparr>user_data = ''namespace=/ns;'', participant_name = Some ''pname''\<rparr>)
        else (RETCODE_OK, \<lparr>user_data = [], participant_name = None\<rparr>))\<rparr>"

definition talker :: rmw_node_t where
  "talker =
     \<lparr>node_implementation_identifier = ''rmw_connext_cpp'', node_namespace = Some ''/'',
      node_participant = fleet\<rparr>"


section \<open>Properties of the publisher listener\<close>

lemma sample_loop_drop:
  "sample_loop h k seq i = map (\<lambda>(d, info). process_sample h k d info) (drop i seq)"
proof (induction h k seq i rule: sample_loop.induct)
  case (1 h k seq i)
  show ?case
  proof (cases "i < length seq")
    case True
    then have "drop i seq = seq ! i # drop (Suc i) seq"
      by (simp add: Cons_nth_drop_Suc)
    with True 1 show ?thesis
      by (subst sample_loop.simps) (simp add: case_prod_beta)
  next
    case False
    then show ?thesis by (subst sample_loop.simps) simp
  qed
qed

lemma is_cache_call_process_sample [simp]: "is_cache_call (process_sample h k d info)"
  by (simp add: process_sample_def Let_def)

lemma process_sample_not_trigger [simp]:
  "process_sample h k d info \<noteq> trigger_graph_guard_condition"
  by (simp add: process_sample_def Let_def)

lemma no_trigger_in_sample_loop [simp]:
  "filter (\<lambda>c. c = trigger_graph_guard_condition) (sample_loop h k seq i) = []"
  by (simp add: sample_loop_drop filter_empty_conv split: prod.splits)

text \<open>
  C7. When \<^verbatim>\<open>take\<close> succeeds with the batch \<open>seq\<close>, the calls that reach the cache are,
  in the order of the batch, exactly one per sample: for a sample with valid data whose
  instance is alive, \<open>add_information\<close> with the GUID of the sample's participant key, the
  GUID of its instance handle, its topic name, its type name and the kind \<open>Publisher\<close>;
  for any other sample, \<open>remove_information\<close> with the GUID of its instance handle and
  the kind \<open>Publisher\<close>.
\<close>

theorem publisher_listener_applies_each_sample_once:
  "cache_calls (on_data_available h k
      (Some (PublicationBuiltinTopicDataDataReader (RETCODE_OK, seq))))
   = map (\<lambda>(d, info).
            if valid_data info \<and> instance_state info = ALIVE_INSTANCE_STATE
            then add_information (k (participant_key d)) (h (instance_handle info))
                   (topic_name d) (type_name d) Publisher
            else remove_information (h (instance_handle info)) Publisher) seq"
proof -
  let ?body = "\<lambda>(d, info). process_sample h k d info"
  have kept: "filter is_cache_call (map ?body seq) = map ?body seq"
    by (induction seq) auto
  have unfolded: "map ?body seq = map (\<lambda>(d, info).
            if valid_data info \<and> instance_state info = ALIVE_INSTANCE_STATE
            then add_information (k (participant_key d)) (h (instance_handle info))
                   (topic_name d) (type_name d) Publisher
            else remove_information (h (instance_handle info)) Publisher) seq"
    by (auto simp: process_sample_def Let_def)
  have "cache_calls (on_data_available h k
          (Some (PublicationBuiltinTopicDataDataReader (RETCODE_OK, seq)))) = map ?body seq"
    using kept by (simp add: cache_calls_def on_data_available_def sample_loop_drop)
  with unfolded show ?thesis by simp
qed

text \<open>
  C8. One invocation triggers the graph guard condition once when the reader narrows,
  \<^verbatim>\<open>take\<close> succeeds and the batch is not empty, and not at all in every other case
  (the reader does not narrow, \<^verbatim>\<open>take\<close> reports no data or fails, the batch is empty).
  So for a batch of more than one sample the number of triggers differs from the number
  of samples.
\<close>

theorem publisher_listener_triggers_once_per_batch:
  "trigger_count (on_data_available h k reader) =
     (case narrow reader of
        Some (retcode, seq) \<Rightarrow> if retcode = RETCODE_OK \<and> 0 < length seq then 1 else 0
      | None \<Rightarrow> 0)
   \<and> (\<forall>seq. narrow reader = Some (RETCODE_OK, seq) \<and> 1 < length seq \<longrightarrow>
          trigger_count (on_data_available h k reader) \<noteq> length seq)"
proof -
  have count: "trigger_count (on_data_available h k reader) =
     (case narrow reader of
        Some (retcode, seq) \<Rightarrow> if retcode = RETCODE_OK \<and> 0 < length seq then 1 else 0
      | None \<Rightarrow> 0)"
  proof (cases "narrow reader")
    case None
    then show ?thesis by (simp add: on_data_available_def trigger_count_def)
  next
    case (Some taken)
    obtain retcode seq where taken: "taken = (retcode, seq)" by (cases taken)
    from Some taken show ?thesis
      by (simp add: on_data_available_def trigger_count_def)
  qed
  then show ?thesis by auto
qed

theorem publisher_listener_triggers_once_per_batch_witness:
  "narrow (Some (PublicationBuiltinTopicDataDataReader (RETCODE_OK,
      [(\<lparr>participant_key = 7, topic_name = ''chatter'', type_name = ''String''\<rparr>,
        \<lparr>instance_handle = 1, valid_data = True, instance_state = ALIVE_INSTANCE_STATE\<rparr>),
       (\<lparr>participant_key = 7, topic_name = ''rosout'', type_name = ''Log''\<rparr>,
        \<lparr>instance_handle = 2, valid_data = False,
         instance_state = NOT_ALIVE_DISPOSED_INSTANCE_STATE\<rparr>)])))
   = Some (RETCODE_OK,
      [(\<lparr>participant_key = 7, topic_name = ''chatter'', type_name = ''String''\<rparr>,
        \<lparr>instance_handle = 1, valid_data = True, instance_state = ALIVE_INSTANCE_STATE\<rparr>),
       (\<lparr>participant_key = 7, topic_name = ''rosout'', type_name = ''Log''\<rparr>,
        \<lparr>instance_handle = 2, valid_data = False,
         instance_state = NOT_ALIVE_DISPOSED_INSTANCE_STATE\<rparr>)])
   \<and> trigger_count (on_data_available (\<lambda>handle. replicate 16 (CHR 0x00))
         (\<lambda>key. replicate 16 (CHR 0x00))
         (Some (PublicationBuiltinTopicDataDataReader (RETCODE_OK,
      [(\<lparr>participant_key = 7, topic_name = ''chatter'', type_name = ''String''\<rparr>,
        \<lparr>instance_handle = 1, valid_data = True, instance_state = ALIVE_INSTANCE_STATE\<rparr>),
       (\<lparr>participant_key = 7, topic_name = ''rosout'', type_name = ''Log''\<rparr>,
        \<lparr>instance_handle = 2, valid_data = False,
         instance_state = NOT_ALIVE_DISPOSED_INSTANCE_STATE\<rparr>)])))) = 1
   \<and> trigger_count (on_data_available (\<lambda>handle. replicate 16 (CHR 0x00))
         (\<lambda>key. replicate 16 (CHR 0x00))
         (Some (PublicationBuiltinTopicDataDataReader (RETCODE_OK,
      [(\<lparr>participant_key = 7, topic_name = ''chatter'', type_name = ''String''\<rparr>,
        \<lparr>instance_handle = 1, valid_data = True, instance_state = ALIVE_INSTANCE_STATE\<rparr>),
       (\<lparr>participant_key = 7, topic_name = ''rosout'', type_name = ''Log''\<rparr>,
        \<lparr>instance_handle = 2, valid_data = False,
         instance_state = NOT_ALIVE_DISPOSED_INSTANCE_STATE\<rparr>)])))) \<noteq> 2"
  using publisher_listener_triggers_once_per_batch
    [of "\<lambda>handle. replicate 16 (CHR 0x00)" "\<lambda>key. replicate 16 (CHR 0x00)"
        "Some (PublicationBuiltinTopicDataDataReader (RETCODE_OK,
      [(\<lparr>participant_key = 7, topic_name = ''chatter'', type_name = ''String''\<rparr>,
        \<lparr>instance_handle = 1, valid_data = True, instance_state = ALIVE_INSTANCE_STATE\<rparr>),
       (\<lparr>participant_key = 7, topic_name = ''rosout'', type_name = ''Log''\<rparr>,
        \<lparr>instance_handle = 2, valid_data = False,
         instance_state = NOT_ALIVE_DISPOSED_INSTANCE_STATE\<rparr>)]))"]
  by simp

section \<open>Properties of get\_node\_names\<close>

subsection \<open>Temporary arrays in closed form\<close>

lemma held_zero [simp]: "held rcutils_get_zero_initialized_string_array = 0"
  by (simp add: held_def rcutils_get_zero_initialized_string_array_def)

lemma filter_map_Some [simp]: "filter (\<lambda>s. s \<noteq> None) (map Some xs) = map Some xs"
  by (induction xs) auto

lemma held_filled [simp]: "length xs \<le> len \<Longrightarrow> held (filled len xs) = Suc (length xs)"
  by (simp add: held_def filled_def)

lemma deallocate_0 [simp]: "deallocate 0 a = a"
  by (simp add: deallocate_def)

lemma live_deallocate [simp]: "live (deallocate k a) = live a - k"
  by (simp add: deallocate_def)

lemma string_array_fini_held:
  "string_array_fini arr a =
     (RCUTILS_RET_OK,
      (if array_data arr = None then arr else rcutils_get_zero_initialized_string_array),
      deallocate (held arr) a)"
  by (simp add: string_array_fini_def held_def split: option.splits)

lemma allocate_cases:
  obtains (served) a' where "allocate a = (True, a')" "live a' = Suc (live a)"
      "never_refuses a \<longrightarrow> never_refuses a'"
  | (refused) a' where "allocate a = (False, a')" "live a' = live a" "\<not> never_refuses a"
  by (cases "outcomes a"; cases "hd (outcomes a)") (auto simp: allocate_def never_refuses_def)

lemma replicate_update_same [simp]: "(replicate n x)[i := x] = replicate n x"
  by (induction n arbitrary: i) (auto split: nat.splits)

lemma store_filled_null:
  "length xs \<le> i \<Longrightarrow> i < len \<Longrightarrow> store (filled len xs) i None = Some (filled len xs)"
  by (simp add: store_def filled_def list_update_append)

lemma store_filled_next:
  "length xs < len \<Longrightarrow>
   store (filled len xs) (length xs) (Some x) = Some (filled len (xs @ [x]))"
proof -
  assume less: "length xs < len"
  then obtain k where k: "len - length xs = Suc k" by (cases "len - length xs") auto
  then have "len - Suc (length xs) = k" by simp
  with less k show ?thesis
    by (simp add: store_def filled_def list_update_append)
qed

lemma load_filled:
  "i < length xs \<Longrightarrow> load (filled len xs) i = Some (Some (xs ! i))"
  by (simp add: load_def filled_def nth_append)

lemma string_array_init_cases:
  obtains (served) a' where
      "string_array_init arr n a = (RCUTILS_RET_OK, filled n [], a')" "live a' = Suc (live a)"
      "never_refuses a \<longrightarrow> never_refuses a'"
  | (refused) a' where
      "string_array_init arr n a = (RCUTILS_RET_BAD_ALLOC, arr, a')" "live a' = live a"
      "\<not> never_refuses a"
  by (rule allocate_cases [of a]) (auto simp: string_array_init_def filled_def)

lemma rcutils_strdup_cases:
  obtains (null) "str = None" "rcutils_strdup str a = (None, a)"
  | (served) s a' where "str = Some s" "rcutils_strdup str a = (Some (c_str s), a')"
      "live a' = Suc (live a)" "never_refuses a \<longrightarrow> never_refuses a'"
  | (refused) s a' where "str = Some s" "rcutils_strdup str a = (None, a')" "live a' = live a"
      "\<not> never_refuses a"
  by (cases str; rule allocate_cases [of a]) (auto simp: rcutils_strdup_def)

subsection \<open>The discovery loop\<close>

lemma loop_body_at_loop:
  assumes "length ys = length xs" "length xs \<le> i" "i < len"
    and "live a = L + 2 + 2 * length xs"
  shows "case loop_body pkv p hs i (at_loop names nss len xs ys a) of
           Next f' \<Rightarrow>
             (case resolve pkv p (hs ! (i - 1)) of (name, ns) \<Rightarrow>
                if name = [] then f' = at_loop names nss len xs ys a
                else \<exists>a'. f' = at_loop names nss len (xs @ [c_str name]) (ys @ [c_str ns]) a'
                       \<and> live a' = live a + 2 \<and> (never_refuses a \<longrightarrow> never_refuses a'))
         | Goto_cleanup g \<Rightarrow>
             \<not> never_refuses a \<and> final_ret g = RMW_RET_OK \<and> leaves_clean L names nss g
         | Undefined_behaviour \<Rightarrow> False"
proof -
  obtain name ns where res: "resolve pkv p (hs ! (i - 1)) = (name, ns)"
    by (cases "resolve pkv p (hs ! (i - 1))")
  from assms have less: "length xs < len" "length ys < len" "length ys \<le> i" by simp_all
  show ?thesis
  proof (cases "name = []")
    case True
    with res assms less show ?thesis
      by (simp add: loop_body_def at_loop_def store_filled_null)
  next
    case False
    show ?thesis
    proof (cases rule: rcutils_strdup_cases [of "Some name" a])
      case null
      then show ?thesis by simp
    next
      case (refused s a1)
      with res False assms less show ?thesis
        using store_filled_null [of xs "length xs" len]
        by (simp add: loop_body_def at_loop_def leaves_clean_def)
    next
      case first: (served s a1)
      show ?thesis
      proof (cases rule: rcutils_strdup_cases [of "Some ns" a1])
        case null
        then show ?thesis by simp
      next
        case (refused t a2)
        with first res False assms less show ?thesis
          using store_filled_next [of xs len "c_str name"]
            store_filled_null [of ys "length ys" len]
          by (simp add: loop_body_def at_loop_def leaves_clean_def)
      next
        case (served t a2)
        with first res False assms less show ?thesis
          using store_filled_next [of xs len "c_str name"]
            store_filled_next [of ys len "c_str ns"]
          by (simp add: loop_body_def at_loop_def)
      qed
    qed
  qed
qed

lemma named_pairs_Cons:
  "named_pairs pkv p (h # hs) =
     (case resolve pkv p h of (name, ns) \<Rightarrow>
        if name = [] then named_pairs pkv p hs else (name, ns) # named_pairs pkv p hs)"
  by (simp add: named_pairs_def split: prod.splits)

lemma length_named_pairs: "length (named_pairs pkv p hs) \<le> length hs"
  by (simp add: named_pairs_def)

lemma discover_loop_at_loop:
  assumes "f = at_loop names nss len xs ys a"
    and "length ys = length xs" "1 \<le> i" "length xs \<le> i" "i \<le> len" "len = length hs + 1"
    and "live a = L + 2 + 2 * length xs"
  shows "case discover_loop pkv p hs len i f of
           Next f' \<Rightarrow>
             \<exists>a'. f' = at_loop names nss len
                          (xs @ map (c_str \<circ> fst) (named_pairs pkv p (drop (i - 1) hs)))
                          (ys @ map (c_str \<circ> snd) (named_pairs pkv p (drop (i - 1) hs))) a'
                  \<and> live a' = live a + 2 * length (named_pairs pkv p (drop (i - 1) hs))
                  \<and> (never_refuses a \<longrightarrow> never_refuses a')
         | Goto_cleanup g \<Rightarrow>
             \<not> never_refuses a \<and> final_ret g = RMW_RET_OK \<and> leaves_clean L names nss g
         | Undefined_behaviour \<Rightarrow> False"
  using assms
proof (induction pkv p hs len i f arbitrary: xs ys a rule: discover_loop.induct)
  case (1 pkv p hs len i f)
  show ?case
  proof (cases "i < len")
    case False
    with 1 show ?thesis
      by (subst discover_loop.simps) (auto simp: named_pairs_def intro!: exI [of _ a])
  next
    case True
    with 1 have drop: "drop (i - 1) hs = hs ! (i - 1) # drop i hs"
      by (cases i) (simp_all add: Cons_nth_drop_Suc)
    obtain name ns where res: "resolve pkv p (hs ! (i - 1)) = (name, ns)"
      by (cases "resolve pkv p (hs ! (i - 1))")
    have body: "case loop_body pkv p hs i (at_loop names nss len xs ys a) of
           Next f' \<Rightarrow>
             (case resolve pkv p (hs ! (i - 1)) of (name, ns) \<Rightarrow>
                if name = [] then f' = at_loop names nss len xs ys a
                else \<exists>a'. f' = at_loop names nss len (xs @ [c_str name]) (ys @ [c_str ns]) a'
                       \<and> live a' = live a + 2 \<and> (never_refuses a \<longrightarrow> never_refuses a'))
         | Goto_cleanup g \<Rightarrow>
             \<not> never_refuses a \<and> final_ret g = RMW_RET_OK \<and> leaves_clean L names nss g
         | Undefined_behaviour \<Rightarrow> False"
      using 1 True by (intro loop_body_at_loop) simp_all
    show ?thesis
    proof (cases "loop_body pkv p hs i f")
      case Undefined_behaviour
      with body 1 show ?thesis by simp
    next
      case (Goto_cleanup g)
      with body 1 True show ?thesis
        by (subst discover_loop.simps) simp
    next
      case (Next f')
      show ?thesis
      proof (cases "name = []")
        case empty: True
        with body Next res 1 have f': "f' = at_loop names nss len xs ys a" by simp
        have "case discover_loop pkv p hs len (Suc i) f' of
           Next f'' \<Rightarrow>
             \<exists>a'. f'' = at_loop names nss len
                          (xs @ map (c_str \<circ> fst) (named_pairs pkv p (drop (Suc i - 1) hs)))
                          (ys @ map (c_str \<circ> snd) (named_pairs pkv p (drop (Suc i - 1) hs))) a'
                  \<and> live a' = live a + 2 * length (named_pairs pkv p (drop (Suc i - 1) hs))
                  \<and> (never_refuses a \<longrightarrow> never_refuses a')
         | Goto_cleanup g \<Rightarrow>
             \<not> never_refuses a \<and> final_ret g = RMW_RET_OK \<and> leaves_clean L names nss g
         | Undefined_behaviour \<Rightarrow> False"
          using 1 True Next f' by (intro "1.IH") simp_all
        with True Next drop res empty show ?thesis
          by (subst discover_loop.simps)
             (auto simp: named_pairs_Cons split: flow.splits)
      next
        case named: False
        with body Next res 1 obtain a1 where
          f': "f' = at_loop names nss len (xs @ [c_str name]) (ys @ [c_str ns]) a1"
          and a1: "live a1 = live a + 2" "never_refuses a \<longrightarrow> never_refuses a1"
          by auto
        have "case discover_loop pkv p hs len (Suc i) f' of
           Next f'' \<Rightarrow>
             \<exists>a'. f'' = at_loop names nss len
                          ((xs @ [c_str name])
                           @ map (c_str \<circ> fst) (named_pairs pkv p (drop (Suc i - 1) hs)))
                          ((ys @ [c_str ns])
                           @ map (c_str \<circ> snd) (named_pairs pkv p (drop (Suc i - 1) hs))) a'
                  \<and> live a' = live a1 + 2 * length (named_pairs pkv p (drop (Suc i - 1) hs))
                  \<and> (never_refuses a1 \<longrightarrow> never_refuses a')
         | Goto_cleanup g \<Rightarrow>
             \<not> never_refuses a1 \<and> final_ret g = RMW_RET_OK \<and> leaves_clean L names nss g
         | Undefined_behaviour \<Rightarrow> False"
          using 1 True Next f' a1 by (intro "1.IH") simp_all
        with True Next drop res named a1 show ?thesis
          by (subst discover_loop.simps)
             (auto simp: named_pairs_Cons split: flow.splits)
      qed
    qed
  qed
qed

subsection \<open>The copy loop\<close>

lemma filled_partial_array: "filled len xs = partial_array len (map Some xs)"
  by (simp add: filled_def partial_array_def)

lemma store_partial_array_next:
  "length us < n \<Longrightarrow> store (partial_array n us) (length us) v = Some (partial_array n (us @ [v]))"
proof -
  assume less: "length us < n"
  then obtain k where k: "n - length us = Suc k" by (cases "n - length us") auto
  then have "n - Suc (length us) = k" by simp
  with less k show ?thesis
    by (simp add: store_def partial_array_def list_update_append)
qed

lemma store_partial_array_inside:
  "i < length us \<Longrightarrow> store (partial_array n us) i v = Some (partial_array n (us[i := v]))"
  by (simp add: store_def partial_array_def list_update_append)

lemma load_partial_array:
  "i < length us \<Longrightarrow> load (partial_array n us) i = Some (us ! i)"
  by (simp add: load_def partial_array_def nth_append)

lemma drained_facts:
  assumes "i < length xs"
  shows "length (drained i xs) = length xs" "drained i xs ! i = Some (xs ! i)"
    "(drained i xs)[i := None] = drained (Suc i) xs"
proof -
  from assms have split: "drop i xs = xs ! i # drop (Suc i) xs"
    by (simp add: Cons_nth_drop_Suc)
  from assms show "length (drained i xs) = length xs" by (simp add: drained_def)
  from assms show "drained i xs ! i = Some (xs ! i)"
    by (simp add: drained_def nth_append)
  show "(drained i xs)[i := None] = drained (Suc i) xs"
    by (simp add: drained_def list_update_append split replicate_append_same)
qed

lemma copy_body_at_copy:
  assumes "length us = i" "length vs = i" "i < n" "length xs = n" "length ys = n"
  shows "\<exists>u v a'. copy_body i (at_copy n len i us vs xs ys a)
                    = Next (at_copy n len (Suc i) (us @ [u]) (vs @ [v]) xs ys a')
           \<and> copy_of u (xs ! i) \<and> copy_of v (ys ! i)
           \<and> (never_refuses a \<longrightarrow>
                never_refuses a' \<and> u = Some (c_str (xs ! i)) \<and> v = Some (c_str (ys ! i))
                \<and> live a' = live a + 2)"
proof -
  from assms have i: "i < length xs" "i < length ys" "length us < n" "length vs < n"
    by simp_all
  note tmp = drained_facts [OF i(1)] drained_facts [OF i(2)]
  have loads: "load (partial_array len (drained i xs)) i = Some (Some (xs ! i))"
    "load (partial_array len (drained i ys)) i = Some (Some (ys ! i))"
    using i tmp by (simp_all add: load_partial_array)
  have stores: "store (partial_array len (drained i xs)) i None
                  = Some (partial_array len (drained (Suc i) xs))"
    "store (partial_array len (drained i ys)) i None
                  = Some (partial_array len (drained (Suc i) ys))"
    using i tmp by (simp_all add: store_partial_array_inside)
  have outs: "\<And>u. store (partial_array n us) i u = Some (partial_array n (us @ [u]))"
    "\<And>v. store (partial_array n vs) i v = Some (partial_array n (vs @ [v]))"
    using i assms store_partial_array_next [of us n] store_partial_array_next [of vs n]
    by simp_all
  show ?thesis
  proof (cases rule: rcutils_strdup_cases [of "Some (xs ! i)" a])
    case null
    then show ?thesis by simp
  next
    case first: (served s a1)
    show ?thesis
    proof (cases rule: rcutils_strdup_cases [of "Some (ys ! i)" a1])
      case null
      then show ?thesis by simp
    next
      case (served t a2)
      with first loads stores outs show ?thesis
        by (auto simp: copy_body_def at_copy_def copy_of_def)
    next
      case (refused t a2)
      with first loads stores outs show ?thesis
        by (auto simp: copy_body_def at_copy_def copy_of_def)
    qed
  next
    case first: (refused s a1)
    show ?thesis
    proof (cases rule: rcutils_strdup_cases [of "Some (ys ! i)" a1])
      case null
      then show ?thesis by simp
    next
      case (served t a2)
      with first loads stores outs show ?thesis
        by (auto simp: copy_body_def at_copy_def copy_of_def)
    next
      case (refused t a2)
      with first loads stores outs show ?thesis
        by (auto simp: copy_body_def at_copy_def copy_of_def)
    qed
  qed
qed

lemma named_nodes_num_at_copy [simp]: "named_nodes_num (at_copy n len i us vs xs ys a) = n"
  by (simp add: at_copy_def)

lemma copy_loop_at_copy:
  assumes "f = at_copy n len i us vs xs ys a"
    and "length us = i" "length vs = i" "i \<le> n" "length xs = n" "length ys = n"
  shows "\<exists>us' vs' a'. copy_loop i f = Next (at_copy n len n (us @ us') (vs @ vs') xs ys a')
           \<and> list_all2 copy_of us' (drop i xs) \<and> list_all2 copy_of vs' (drop i ys)
           \<and> (never_refuses a \<longrightarrow>
                never_refuses a' \<and> us' = map (Some \<circ> c_str) (drop i xs)
                \<and> vs' = map (Some \<circ> c_str) (drop i ys)
                \<and> live a' = live a + 2 * (n - i))"
  using assms
proof (induction i f arbitrary: us vs a rule: copy_loop.induct)
  case (1 i f)
  show ?case
  proof (cases "i < n")
    case False
    with 1 have "copy_loop i f = Next (at_copy n len n (us @ []) (vs @ []) xs ys a)"
      by (subst copy_loop.simps) simp
    with False 1 show ?thesis
      by (intro exI [of _ "[]"] exI [of _ a]) simp
  next
    case True
    with 1 obtain u v a1 where
      body: "copy_body i f = Next (at_copy n len (Suc i) (us @ [u]) (vs @ [v]) xs ys a1)"
      and uv: "copy_of u (xs ! i)" "copy_of v (ys ! i)"
      and served: "never_refuses a \<longrightarrow>
             never_refuses a1 \<and> u = Some (c_str (xs ! i)) \<and> v = Some (c_str (ys ! i))
             \<and> live a1 = live a + 2"
      using copy_body_at_copy [of us i vs n xs ys len a] by auto
    from True 1 have split: "drop i xs = xs ! i # drop (Suc i) xs"
      "drop i ys = ys ! i # drop (Suc i) ys"
      by (simp_all add: Cons_nth_drop_Suc)
    have "\<exists>us' vs' a'. copy_loop (Suc i) (at_copy n len (Suc i) (us @ [u]) (vs @ [v]) xs ys a1)
              = Next (at_copy n len n ((us @ [u]) @ us') ((vs @ [v]) @ vs') xs ys a')
           \<and> list_all2 copy_of us' (drop (Suc i) xs) \<and> list_all2 copy_of vs' (drop (Suc i) ys)
           \<and> (never_refuses a1 \<longrightarrow>
                never_refuses a' \<and> us' = map (Some \<circ> c_str) (drop (Suc i) xs)
                \<and> vs' = map (Some \<circ> c_str) (drop (Suc i) ys)
                \<and> live a' = live a1 + 2 * (n - Suc i))"
      using 1 True body by (intro "1.IH") simp_all
    then obtain us' vs' a' where
      rest: "copy_loop (Suc i) (at_copy n len (Suc i) (us @ [u]) (vs @ [v]) xs ys a1)
              = Next (at_copy n len n (us @ u # us') (vs @ v # vs') xs ys a')"
      and rel: "list_all2 copy_of us' (drop (Suc i) xs)"
        "list_all2 copy_of vs' (drop (Suc i) ys)"
      and served': "never_refuses a1 \<longrightarrow>
                never_refuses a' \<and> us' = map (Some \<circ> c_str) (drop (Suc i) xs)
                \<and> vs' = map (Some \<circ> c_str) (drop (Suc i) ys)
                \<and> live a' = live a1 + 2 * (n - Suc i)"
      by auto
    from True 1 body rest
    have "copy_loop i f = Next (at_copy n len n (us @ u # us') (vs @ v # vs') xs ys a')"
      by (subst copy_loop.simps) simp
    with uv rel served served' split True show ?thesis
      by (intro exI [of _ "u # us'"] exI [of _ "v # vs'"] exI [of _ a']) auto
  qed
qed

subsection \<open>The stages around the loops\<close>

lemma c_str_idem [simp]: "c_str (c_str s) = c_str s"
  by (simp add: c_str_def takeWhile_idem)

lemma finalised_simps [simp]:
  "finalised None = None"
  "finalised (Some rcutils_get_zero_initialized_string_array)
     = Some rcutils_get_zero_initialized_string_array"
  "finalised (Some (filled n xs)) = Some rcutils_get_zero_initialized_string_array"
  by (simp_all add: finalised_def rcutils_get_zero_initialized_string_array_def filled_def)

lemma held_ptr_simps [simp]:
  "held_ptr None = 0"
  "held_ptr (Some arr) = held arr"
  by (simp_all add: held_ptr_def)

lemma cleanup_eq:
  "cleanup g =
     \<lparr>ret = final_ret g, names_out = finalised (node_names g),
      namespaces_out = finalised (node_namespaces g),
      allocator_out =
        deallocate (held (tmp_namespaces_list g))
          (deallocate (held (tmp_names_list g))
             (deallocate (held_ptr (node_namespaces g))
                (deallocate (held_ptr (node_names g)) (allocator g))))\<rparr>"
  by (cases "node_names g"; cases "node_namespaces g")
     (simp_all add: cleanup_def rcutils_string_array_fini_def string_array_fini_held
        finalised_def)

lemma temporaries_and_yourself:
  assumes "0 < len"
  shows "case allocate_temporaries names nss len a of
           Next f1 \<Rightarrow>
             (case add_yourself own_name own_ns f1 of
                Next f2 \<Rightarrow>
                  \<exists>x y a'. own_name = Some x \<and> own_ns = Some y
                     \<and> f2 = at_loop names nss len [c_str x] [c_str y] a'
                     \<and> live a' = live a + 4 \<and> (never_refuses a \<longrightarrow> never_refuses a')
              | Goto_cleanup g \<Rightarrow>
                  final_ret g = RMW_RET_OK \<and> leaves_clean (live a) names nss g
                  \<and> (never_refuses a \<longrightarrow> own_name = None \<or> own_ns = None)
              | Undefined_behaviour \<Rightarrow> False)
         | Goto_cleanup g \<Rightarrow>
             final_ret g = RMW_RET_BAD_ALLOC \<and> leaves_clean (live a) names nss g
             \<and> \<not> never_refuses a
         | Undefined_behaviour \<Rightarrow> False"
proof (cases rule: string_array_init_cases
    [of rcutils_get_zero_initialized_string_array len a])
  case (refused a1)
  then show ?thesis
    by (simp add: allocate_temporaries_def leaves_clean_def)
next
  case first: (served a1)
  show ?thesis
  proof (cases rule: string_array_init_cases
      [of rcutils_get_zero_initialized_string_array len a1])
    case (refused a2)
    with first show ?thesis
      by (auto simp: allocate_temporaries_def leaves_clean_def)
  next
    case second: (served a2)
    define f1 where "f1 = \<lparr>node_names = names, node_namespaces = nss,
        tmp_names_list = filled len [], tmp_namespaces_list = filled len [],
        named_nodes_num = 1, rcutils_ret = RCUTILS_RET_OK, final_ret = RMW_RET_OK,
        allocator = a2\<rparr>"
    from first second have temps: "allocate_temporaries names nss len a = Next f1"
      by (simp add: allocate_temporaries_def f1_def)
    have null: "store (filled len []) 0 None = Some (filled len [])"
      using assms store_filled_null [of "[]" 0 len] by simp
    have one: "\<And>x. store (filled len []) 0 (Some x) = Some (filled len [x])"
      using assms store_filled_next [of "[]" len] by simp
    have "case add_yourself own_name own_ns f1 of
                Next f2 \<Rightarrow>
                  \<exists>x y a'. own_name = Some x \<and> own_ns = Some y
                     \<and> f2 = at_loop names nss len [c_str x] [c_str y] a'
                     \<and> live a' = live a + 4 \<and> (never_refuses a \<longrightarrow> never_refuses a')
              | Goto_cleanup g \<Rightarrow>
                  final_ret g = RMW_RET_OK \<and> leaves_clean (live a) names nss g
                  \<and> (never_refuses a \<longrightarrow> own_name = None \<or> own_ns = None)
              | Undefined_behaviour \<Rightarrow> False"
    proof (cases rule: rcutils_strdup_cases [of own_name a2])
      case null
      with first second assms show ?thesis
        using \<open>store (filled len []) 0 None = Some (filled len [])\<close>
        by (simp add: add_yourself_def f1_def leaves_clean_def)
    next
      case (refused x a3)
      with first second assms show ?thesis
        using \<open>store (filled len []) 0 None = Some (filled len [])\<close>
        by (auto simp: add_yourself_def f1_def leaves_clean_def)
    next
      case name: (served x a3)
      show ?thesis
      proof (cases rule: rcutils_strdup_cases [of own_ns a3])
        case null
        with name first second assms show ?thesis
          using \<open>store (filled len []) 0 None = Some (filled len [])\<close> one
          by (simp add: add_yourself_def f1_def leaves_clean_def)
      next
        case (refused y a4)
        with name first second assms show ?thesis
          using \<open>store (filled len []) 0 None = Some (filled len [])\<close> one
          by (auto simp: add_yourself_def f1_def leaves_clean_def)
      next
        case (served y a4)
        with name first second assms show ?thesis
          using one by (auto simp: add_yourself_def f1_def at_loop_def)
      qed
    qed
    with temps show ?thesis by simp
  qed
qed

lemma partial_array_full:
  "length us = n \<Longrightarrow> partial_array n us = \<lparr>array_size = n, array_data = Some us\<rparr>"
  by (simp add: partial_array_def)

lemma drained_all: "length xs = n \<Longrightarrow> drained n xs = replicate n None"
  by (simp add: drained_def)

lemma held_all_null [simp]: "held (partial_array len (replicate n None)) = 1"
  by (simp add: held_def partial_array_def)

lemma at_loop_as_at_copy:
  assumes "length ys = length xs"
  shows "at_loop (Some (filled (length xs) [])) (Some (filled (length xs) [])) len xs ys a
         = at_copy (length xs) len 0 [] [] xs ys a"
  using assms
  by (simp add: at_loop_def at_copy_def drained_def filled_partial_array)

lemma prepare_output_at_loop:
  assumes "f = at_loop (Some rcutils_get_zero_initialized_string_array) nss len xs ys a"
    and "length ys = length xs"
  shows "case prepare_output f of
           Next m \<Rightarrow>
             \<exists>us vs. node_names m = Some \<lparr>array_size = length xs, array_data = Some us\<rparr>
               \<and> node_namespaces m = Some \<lparr>array_size = length xs, array_data = Some vs\<rparr>
               \<and> list_all2 copy_of us xs \<and> list_all2 copy_of vs ys \<and> nss \<noteq> None
               \<and> (never_refuses a \<longrightarrow>
                    us = map (Some \<circ> c_str) xs \<and> vs = map (Some \<circ> c_str) ys
                    \<and> live (allocator m) = live a + 2 * length xs)
         | Goto_cleanup g \<Rightarrow>
             (final_ret g = RMW_RET_BAD_ALLOC \<and> \<not> never_refuses a
              \<or> final_ret g = RMW_RET_INVALID_ARGUMENT \<and> nss = None)
             \<and> node_namespaces g = nss
             \<and> finalised (node_names g) = Some rcutils_get_zero_initialized_string_array
             \<and> tmp_names_list g = filled len xs \<and> tmp_namespaces_list g = filled len ys
             \<and> live (allocator g) = live a + held_ptr (node_names g)
         | Undefined_behaviour \<Rightarrow> False"
proof (cases rule: string_array_init_cases
    [of rcutils_get_zero_initialized_string_array "length xs" a])
  case (refused a1)
  with assms show ?thesis
    by (simp add: prepare_output_def rcutils_string_array_init_def at_loop_def)
next
  case names: (served a1)
  show ?thesis
  proof (cases nss)
    case None
    with names assms show ?thesis
      by (simp add: prepare_output_def rcutils_string_array_init_def at_loop_def)
  next
    case (Some arr)
    show ?thesis
    proof (cases rule: string_array_init_cases [of arr "length xs" a1])
      case (refused a2)
      with names Some assms show ?thesis
        by (auto simp: prepare_output_def rcutils_string_array_init_def at_loop_def)
    next
      case namespaces: (served a2)
      define h where "h = at_copy (length xs) len 0 [] [] xs ys a2"
      obtain us vs a3 where
        loop: "copy_loop 0 h = Next (at_copy (length xs) len (length xs) us vs xs ys a3)"
        and rel: "list_all2 copy_of us xs" "list_all2 copy_of vs ys"
        and served: "never_refuses a2 \<longrightarrow>
               us = map (Some \<circ> c_str) xs \<and> vs = map (Some \<circ> c_str) ys
               \<and> live a3 = live a2 + 2 * length xs"
        using copy_loop_at_copy [of h "length xs" len 0 "[]" "[]" xs ys a2] assms
        by (auto simp: h_def)
      from rel have len: "length us = length xs" "length vs = length xs"
        using assms by (simp_all add: list_all2_lengthD)
      have h: "f\<lparr>node_names := Some (filled (length xs) []), rcutils_ret := RCUTILS_RET_OK,
                 allocator := a1,
                 node_namespaces := Some (filled (length xs) []),
                 rcutils_ret := RCUTILS_RET_OK, allocator := a2\<rparr> = h"
        using assms at_loop_as_at_copy [of ys xs len a2]
        by (simp add: h_def at_loop_def)
      from names namespaces Some assms have
        "prepare_output f =
           (case copy_loop 0 h of
              Next k \<Rightarrow>
                (case string_array_fini (tmp_names_list k) (allocator k) of
                   (r3, tn, a3) \<Rightarrow>
                     let l = k\<lparr>tmp_names_list := tn, rcutils_ret := r3, allocator := a3\<rparr>
                     in if r3 \<noteq> RCUTILS_RET_OK
                        then Goto_cleanup
                               (l\<lparr>final_ret := rmw_convert_rcutils_ret_to_rmw_ret r3\<rparr>)
                        else (case string_array_fini (tmp_namespaces_list l) (allocator l) of
                                (r4, tns, a4) \<Rightarrow>
                                  let m = l\<lparr>tmp_namespaces_list := tns, rcutils_ret := r4,
                                            allocator := a4\<rparr>
                                  in if r4 \<noteq> RCUTILS_RET_OK
                                     then Goto_cleanup
                                            (m\<lparr>final_ret :=
                                                 rmw_convert_rcutils_ret_to_rmw_ret r4\<rparr>)
                                     else Next m))
            | Goto_cleanup k \<Rightarrow> Goto_cleanup k
            | Undefined_behaviour \<Rightarrow> Undefined_behaviour)"
        unfolding h [symmetric]
        by (simp add: prepare_output_def rcutils_string_array_init_def at_loop_def)
      with loop len rel served names namespaces Some assms(2) show ?thesis
        by (simp add: string_array_fini_held at_copy_def partial_array_full drained_all)
    qed
  qed
qed

subsection \<open>The stages in sequence\<close>

lemma assemble_cases:
  "case assemble pkv p hs own_name own_ns (Some rcutils_get_zero_initialized_string_array)
          nss a of
     Next m \<Rightarrow>
       \<exists>x y us vs. own_name = Some x \<and> own_ns = Some y \<and> nss \<noteq> None
         \<and> node_names m = Some \<lparr>array_size = Suc (length (named_pairs pkv p hs)),
                                 array_data = Some us\<rparr>
         \<and> node_namespaces m = Some \<lparr>array_size = Suc (length (named_pairs pkv p hs)),
                                      array_data = Some vs\<rparr>
         \<and> list_all2 copy_of us (map fst (own_and_named pkv p hs x y))
         \<and> list_all2 copy_of vs (map snd (own_and_named pkv p hs x y))
         \<and> (never_refuses a \<longrightarrow>
              us = map (Some \<circ> c_str \<circ> fst) (own_and_named pkv p hs x y)
              \<and> vs = map (Some \<circ> c_str \<circ> snd) (own_and_named pkv p hs x y)
              \<and> live (allocator m) = live a + 2 + 4 * Suc (length (named_pairs pkv p hs)))
   | Goto_cleanup g \<Rightarrow>
       (final_ret g = RMW_RET_OK \<and> (never_refuses a \<longrightarrow> own_name = None \<or> own_ns = None)
        \<or> final_ret g = RMW_RET_BAD_ALLOC \<and> \<not> never_refuses a
        \<or> final_ret g = RMW_RET_INVALID_ARGUMENT \<and> nss = None)
       \<and> node_namespaces g = nss
       \<and> finalised (node_names g) = Some rcutils_get_zero_initialized_string_array
       \<and> live (allocator g)
           = live a + held_ptr (node_names g) + held (tmp_names_list g)
             + held (tmp_namespaces_list g)
   | Undefined_behaviour \<Rightarrow> False"
proof -
  let ?zero = "Some rcutils_get_zero_initialized_string_array"
  let ?len = "length hs + 1"
  have "0 < ?len" by simp
  note stage1 = temporaries_and_yourself [OF this, where names = ?zero and nss = nss
      and a = a and own_name = own_name and own_ns = own_ns]
  show ?thesis
  proof (cases "allocate_temporaries ?zero nss ?len a")
    case Undefined_behaviour
    with stage1 show ?thesis by simp
  next
    case (Goto_cleanup g)
    with stage1 show ?thesis
      by (simp add: assemble_def leaves_clean_def)
  next
    case temps: (Next f1)
    show ?thesis
    proof (cases "add_yourself own_name own_ns f1")
      case Undefined_behaviour
      with stage1 temps show ?thesis by simp
    next
      case (Goto_cleanup g)
      with stage1 temps show ?thesis
        by (simp add: assemble_def leaves_clean_def)
    next
      case (Next f2)
      with stage1 temps obtain x y a1 where
        own: "own_name = Some x" "own_ns = Some y"
        and f2: "f2 = at_loop ?zero nss ?len [c_str x] [c_str y] a1"
        and a1: "live a1 = live a + 4" "never_refuses a \<longrightarrow> never_refuses a1"
        by auto
      let ?P = "named_pairs pkv p hs"
      have stage3: "case discover_loop pkv p hs ?len 1 f2 of
           Next f' \<Rightarrow>
             \<exists>a'. f' = at_loop ?zero nss ?len
                          ([c_str x] @ map (c_str \<circ> fst) (named_pairs pkv p (drop (1 - 1) hs)))
                          ([c_str y] @ map (c_str \<circ> snd) (named_pairs pkv p (drop (1 - 1) hs))) a'
                  \<and> live a' = live a1 + 2 * length (named_pairs pkv p (drop (1 - 1) hs))
                  \<and> (never_refuses a1 \<longrightarrow> never_refuses a')
         | Goto_cleanup g \<Rightarrow>
             \<not> never_refuses a1 \<and> final_ret g = RMW_RET_OK \<and> leaves_clean (live a) ?zero nss g
         | Undefined_behaviour \<Rightarrow> False"
        using f2 a1 by (intro discover_loop_at_loop) simp_all
      show ?thesis
      proof (cases "discover_loop pkv p hs ?len 1 f2")
        case Undefined_behaviour
        with stage3 show ?thesis by simp
      next
        case (Goto_cleanup g)
        with stage3 temps Next a1 show ?thesis
          by (auto simp: assemble_def leaves_clean_def)
      next
        case loop: (Next f3)
        with stage3 obtain a2 where
          f3: "f3 = at_loop ?zero nss ?len (c_str x # map (c_str \<circ> fst) ?P)
                      (c_str y # map (c_str \<circ> snd) ?P) a2"
          and a2: "live a2 = live a1 + 2 * length ?P" "never_refuses a1 \<longrightarrow> never_refuses a2"
          by auto
        have bound: "length ?P \<le> length hs" by (rule length_named_pairs)
        have stage4: "case prepare_output f3 of
           Next m \<Rightarrow>
             \<exists>us vs. node_names m = Some \<lparr>array_size = length (c_str x # map (c_str \<circ> fst) ?P),
                                            array_data = Some us\<rparr>
               \<and> node_namespaces m = Some \<lparr>array_size = length (c_str x # map (c_str \<circ> fst) ?P),
                                            array_data = Some vs\<rparr>
               \<and> list_all2 copy_of us (c_str x # map (c_str \<circ> fst) ?P)
               \<and> list_all2 copy_of vs (c_str y # map (c_str \<circ> snd) ?P) \<and> nss \<noteq> None
               \<and> (never_refuses a2 \<longrightarrow>
                    us = map (Some \<circ> c_str) (c_str x # map (c_str \<circ> fst) ?P)
                    \<and> vs = map (Some \<circ> c_str) (c_str y # map (c_str \<circ> snd) ?P)
                    \<and> live (allocator m)
                        = live a2 + 2 * length (c_str x # map (c_str \<circ> fst) ?P))
         | Goto_cleanup g \<Rightarrow>
             (final_ret g = RMW_RET_BAD_ALLOC \<and> \<not> never_refuses a2
              \<or> final_ret g = RMW_RET_INVALID_ARGUMENT \<and> nss = None)
             \<and> node_namespaces g = nss
             \<and> finalised (node_names g) = ?zero
             \<and> tmp_names_list g = filled ?len (c_str x # map (c_str \<circ> fst) ?P)
             \<and> tmp_namespaces_list g = filled ?len (c_str y # map (c_str \<circ> snd) ?P)
             \<and> live (allocator g) = live a2 + held_ptr (node_names g)
         | Undefined_behaviour \<Rightarrow> False"
          using f3 by (intro prepare_output_at_loop) simp_all
        have whole: "assemble pkv p hs own_name own_ns ?zero nss a = prepare_output f3"
          using temps Next loop by (simp add: assemble_def)
        have copies: "\<And>us zs. list_all2 copy_of us (map c_str zs) = list_all2 copy_of us zs"
          by (simp add: list_all2_map2 copy_of_def [abs_def])
        show ?thesis
        proof (cases "prepare_output f3")
          case Undefined_behaviour
          with stage4 show ?thesis by simp
        next
          case (Goto_cleanup g)
          with stage4 whole a1 a2 bound show ?thesis
            by auto
        next
          case out: (Next m)
          with stage4 obtain us vs where
            m: "node_names m = Some \<lparr>array_size = Suc (length ?P), array_data = Some us\<rparr>"
              "node_namespaces m = Some \<lparr>array_size = Suc (length ?P), array_data = Some vs\<rparr>"
            and rel: "list_all2 copy_of us (map c_str (x # map fst ?P))"
              "list_all2 copy_of vs (map c_str (y # map snd ?P))"
            and nss: "nss \<noteq> None"
            and served: "never_refuses a2 \<longrightarrow>
                    us = map (Some \<circ> c_str) (c_str x # map (c_str \<circ> fst) ?P)
                    \<and> vs = map (Some \<circ> c_str) (c_str y # map (c_str \<circ> snd) ?P)
                    \<and> live (allocator m) = live a2 + 2 * Suc (length ?P)"
            by auto
          from rel have "list_all2 copy_of us (x # map fst ?P)"
            "list_all2 copy_of vs (y # map snd ?P)"
            by (simp_all only: copies)
          with m nss served own a1 a2 whole out show ?thesis
            by (simp add: own_and_named_def)
        qed
      qed
    qed
  qed
qed

subsection \<open>The whole function\<close>

lemma rmw_check_zero_iff:
  "rmw_check_zero_rmw_string_array names = RMW_RET_OK
   \<longleftrightarrow> names = Some rcutils_get_zero_initialized_string_array"
  by (cases names)
     (auto simp: rmw_check_zero_rmw_string_array_def
        rcutils_get_zero_initialized_string_array_def)

lemma get_node_names_cases:
  obtains (early) "get_node_names pkv a impl node names nss = Some (early_return names nss a)"
  | (assembled) n hs own_name where
      "node = Some n" "node_implementation_identifier n = impl"
      "names = Some rcutils_get_zero_initialized_string_array"
      "get_discovered_participants (node_participant n) = (RETCODE_OK, hs)"
      "get_qos (node_participant n) = (RETCODE_OK, own_name)"
      "get_node_names pkv a impl node names nss
         = after_assembly (assemble pkv (node_participant n) hs own_name (node_namespace n)
             (Some rcutils_get_zero_initialized_string_array) nss a)"
proof (cases node)
  case None
  then have "get_node_names pkv a impl node names nss = Some (early_return names nss a)"
    by (simp add: get_node_names_def early_return_def)
  then show ?thesis by (rule early)
next
  case (Some n)
  obtain r hs where fetched: "get_discovered_participants (node_participant n) = (r, hs)"
    by (cases "get_discovered_participants (node_participant n)")
  obtain status own_name where qos: "get_qos (node_participant n) = (status, own_name)"
    by (cases "get_qos (node_participant n)")
  show ?thesis
  proof (cases "node_implementation_identifier n = impl
      \<and> names = Some rcutils_get_zero_initialized_string_array
      \<and> r = RETCODE_OK \<and> status = RETCODE_OK")
    case True
    with Some fetched qos have
      "get_node_names pkv a impl node names nss
         = after_assembly (assemble pkv (node_participant n) hs own_name (node_namespace n)
             (Some rcutils_get_zero_initialized_string_array) nss a)"
      by (simp add: get_node_names_def after_assembly_def rmw_check_zero_iff Let_def
          split: flow.splits)
    with Some fetched qos True show ?thesis by (intro assembled) simp_all
  next
    case False
    with Some fetched qos have
      "get_node_names pkv a impl node names nss = Some (early_return names nss a)"
      by (auto simp: get_node_names_def early_return_def rmw_check_zero_iff Let_def)
    then show ?thesis by (rule early)
  qed
qed


lemma discover_loop_iteration:
  "iteration pkv p hs f0 i f \<Longrightarrow>
   discover_loop pkv p hs (length hs + 1) 1 f0 = discover_loop pkv p hs (length hs + 1) i f"
proof (induction rule: iteration.induct)
  case first
  show ?case by simp
next
  case (step i f f')
  then have "discover_loop pkv p hs (length hs + 1) i f
             = discover_loop pkv p hs (length hs + 1) (Suc i) f'"
    by (subst discover_loop.simps) simp
  with step.IH show ?case by simp
qed



lemmas get_node_names_code =
  get_node_names_def assemble_def allocate_temporaries_def add_yourself_def
  discover_loop.simps loop_body_def resolve_def prepare_output_def copy_loop.simps
  copy_body_def cleanup_def rcutils_string_array_init_def rcutils_string_array_fini_def
  string_array_init_def string_array_fini_def rcutils_strdup_def allocate_def deallocate_def
  store_def load_def c_str_def rmw_check_zero_rmw_string_array_def
  rcutils_get_zero_initialized_string_array_def Let_def


lemma get_node_names_past_checks:
  assumes "node_implementation_identifier n = impl"
    and "get_discovered_participants (node_participant n) = (RETCODE_OK, hs)"
    and "get_qos (node_participant n) = (RETCODE_OK, own_name)"
  shows "get_node_names pkv a impl (Some n)
           (Some rcutils_get_zero_initialized_string_array) nss
         = after_assembly (assemble pkv (node_participant n) hs own_name (node_namespace n)
             (Some rcutils_get_zero_initialized_string_array) nss a)"
  using assms
  by (simp add: get_node_names_def after_assembly_def rmw_check_zero_iff Let_def
      split: flow.splits)

lemma get_node_names_served:
  assumes "node_implementation_identifier n = impl"
    and "get_discovered_participants (node_participant n) = (RETCODE_OK, hs)"
    and "get_qos (node_participant n) = (RETCODE_OK, Some x)"
    and "node_namespace n = Some y"
    and "never_refuses a" and "nss \<noteq> None"
  shows "\<exists>r. get_node_names pkv a impl (Some n)
               (Some rcutils_get_zero_initialized_string_array) nss = Some r
           \<and> ret r = RMW_RET_OK
           \<and> names_out r
               = Some \<lparr>array_size = Suc (length (named_pairs pkv (node_participant n) hs)),
                       array_data = Some (map (Some \<circ> c_str \<circ> fst)
                         ((x, y) # named_pairs pkv (node_participant n) hs))\<rparr>
           \<and> namespaces_out r
               = Some \<lparr>array_size = Suc (length (named_pairs pkv (node_participant n) hs)),
                       array_data = Some (map (Some \<circ> c_str \<circ> snd)
                         ((x, y) # named_pairs pkv (node_participant n) hs))\<rparr>"
proof -
  note whole = get_node_names_past_checks [OF assms(1-3), of pkv a nss]
  note stages = assemble_cases [where pkv = pkv and p = "node_participant n" and hs = hs
      and own_name = "Some x" and own_ns = "Some y" and nss = nss and a = a]
  show ?thesis
  proof (cases "assemble pkv (node_participant n) hs (Some x) (Some y)
      (Some rcutils_get_zero_initialized_string_array) nss a")
    case Undefined_behaviour
    with stages show ?thesis by simp
  next
    case (Goto_cleanup g)
    with stages assms show ?thesis by simp
  next
    case (Next m)
    with stages assms whole show ?thesis
      by (auto simp: after_assembly_def own_and_named_def)
  qed
qed

lemma named_pairs_skip_unfetched:
  "named_pairs pkv p hs
   = named_pairs pkv p
       (filter (\<lambda>h. fst (get_discovered_participant_data p h) = RETCODE_OK) hs)"
proof (induction hs)
  case Nil
  show ?case by simp
next
  case (Cons h hs)
  have "fst (get_discovered_participant_data p h) \<noteq> RETCODE_OK \<Longrightarrow>
        resolve pkv p h = ([], [])"
    by (cases "get_discovered_participant_data p h") (simp add: resolve_def)
  with Cons show ?case
    by (cases "fst (get_discovered_participant_data p h) = RETCODE_OK")
       (auto simp: named_pairs_Cons split: prod.splits)
qed




lemma fleet_run:
  "get_node_names fleet_parser \<lparr>outcomes = [], live = 0\<rparr> ''rmw_connext_cpp''
     (Some talker) (Some rcutils_get_zero_initialized_string_array)
     (Some rcutils_get_zero_initialized_string_array)
   = Some \<lparr>ret = RMW_RET_OK,
       names_out = Some \<lparr>array_size = 3,
         array_data = Some [Some ''talker'', Some ''robot1'', Some ''pname'']\<rparr>,
       namespaces_out = Some \<lparr>array_size = 3,
         array_data = Some [Some ''/'', Some ''/fleet'', Some ''/ns'']\<rparr>,
       allocator_out = \<lparr>outcomes = [], live = 14\<rparr>\<rparr>"
  by (simp add: get_node_names_code talker_def fleet_def fleet_parser_def)

lemma get_node_names_never_transport_error:
  assumes "node_implementation_identifier n = impl"
    and "get_discovered_participants (node_participant n) = (RETCODE_OK, hs)"
    and "get_qos (node_participant n) = (RETCODE_OK, own_name)"
  shows "\<exists>r. get_node_names pkv a impl (Some n)
               (Some rcutils_get_zero_initialized_string_array) nss = Some r
           \<and> ret r \<noteq> RMW_RET_ERROR"
proof -
  note whole = get_node_names_past_checks [OF assms, of pkv a nss]
  note stages = assemble_cases [where pkv = pkv and p = "node_participant n" and hs = hs
      and own_name = own_name and own_ns = "node_namespace n" and nss = nss and a = a]
  show ?thesis
  proof (cases "assemble pkv (node_participant n) hs own_name (node_namespace n)
      (Some rcutils_get_zero_initialized_string_array) nss a")
    case Undefined_behaviour
    with stages show ?thesis by simp
  next
    case (Goto_cleanup g)
    with stages whole show ?thesis
      by (auto simp: after_assembly_def cleanup_eq)
  next
    case (Next m)
    with whole show ?thesis
      by (simp add: after_assembly_def)
  qed
qed

lemma length_named_pairs_filter:
  "length (named_pairs pkv p hs) = length (filter (\<lambda>h. fst (resolve pkv p h) \<noteq> []) hs)"
  by (induction hs) (simp_all add: named_pairs_def split: prod.splits)

lemma held_populated:
  "held \<lparr>array_size = length zs, array_data = Some (map (Some \<circ> f) zs)\<rparr> = Suc (length zs)"
  by (simp add: held_def)

subsection \<open>C1 and C2: runs that report success after a refused request\<close>

text \<open>
  C1. A run that returns \<open>RMW_RET_OK\<close> is claimed to deliver two arrays of one plus the
  number of named participants, with every slot populated and the caller's own node at
  index 0. In the run below the eleventh request to the allocator, the copy of the
  caller's own name into \<^verbatim>\<open>node_names->data[0]\<close> (line 180, stored unchecked), is
  refused: the function returns \<open>RMW_RET_OK\<close> and slot 0 of \<open>node_names\<close> is null.
\<close>

theorem success_with_unpopulated_slot:
  "get_node_names fleet_parser
     \<lparr>outcomes = [True, True, True, True, True, True, True, True, True, True, False],
      live = 0\<rparr>
     ''rmw_connext_cpp'' (Some talker) (Some rcutils_get_zero_initialized_string_array)
     (Some rcutils_get_zero_initialized_string_array)
   = Some \<lparr>ret = RMW_RET_OK,
       names_out = Some \<lparr>array_size = 3,
         array_data = Some [None, Some ''robot1'', Some ''pname'']\<rparr>,
       namespaces_out = Some \<lparr>array_size = 3,
         array_data = Some [Some ''/'', Some ''/fleet'', Some ''/ns'']\<rparr>,
       allocator_out = \<lparr>outcomes = [], live = 13\<rparr>\<rparr>"
  by (simp add: get_node_names_code talker_def fleet_def fleet_parser_def)

text \<open>
  C2. An allocation failure while building the result is claimed to end in a failure
  status. In the run below the third request, the copy of the caller's own participant name
  (line 96), is refused: \<open>final_ret\<close> is converted from \<open>rcutils_ret\<close>, which still holds
  the success of the array initialisation of line 87, and the function returns
  \<open>RMW_RET_OK\<close> with both output arrays empty.
\<close>

theorem refused_copy_reported_as_success:
  "get_node_names fleet_parser \<lparr>outcomes = [True, True, False], live = 0\<rparr>
     ''rmw_connext_cpp'' (Some talker) (Some rcutils_get_zero_initialized_string_array)
     (Some rcutils_get_zero_initialized_string_array)
   = Some \<lparr>ret = RMW_RET_OK,
       names_out = Some rcutils_get_zero_initialized_string_array,
       namespaces_out = Some rcutils_get_zero_initialized_string_array,
       allocator_out = \<lparr>outcomes = [], live = 0\<rparr>\<rparr>"
  by (simp add: get_node_names_code talker_def fleet_def fleet_parser_def)

subsection \<open>C3: how a participant is listed\<close>




subsection \<open>C4 and C5: the output arrays on entry and on failure\<close>

text \<open>
  C4. After a failure past the early argument checks both output arrays are claimed to be
  in the zero-initialized state. The early checks (lines 37--47) look at \<open>node_names\<close>
  only; in the run below \<open>node_namespaces\<close> is not zero-initialized, the list of discovered
  participants cannot be fetched, and the function returns \<open>RMW_RET_ERROR\<close> with
  \<open>node_namespaces\<close> as it was.
\<close>

theorem transport_failure_leaves_namespaces_untouched:
  "get_node_names fleet_parser \<lparr>outcomes = [], live = 2\<rparr> ''rmw_connext_cpp''
     (Some (talker\<lparr>node_participant :=
              fleet\<lparr>get_discovered_participants := (RETCODE_ERROR, [])\<rparr>\<rparr>))
     (Some rcutils_get_zero_initialized_string_array)
     (Some \<lparr>array_size = 1, array_data = Some [Some ''stale'']\<rparr>)
   = Some \<lparr>ret = RMW_RET_ERROR,
       names_out = Some rcutils_get_zero_initialized_string_array,
       namespaces_out = Some \<lparr>array_size = 1, array_data = Some [Some ''stale'']\<rparr>,
       allocator_out = \<lparr>outcomes = [], live = 2\<rparr>\<rparr>"
  by (simp add: get_node_names_code talker_def fleet_def fleet_parser_def)

text \<open>
  C5. A call with an output array that is not zero-initialized is claimed to fail before any
  discovery data is fetched or storage allocated. In the run below \<open>node_namespaces\<close>
  holds an array: the function fetches, allocates, overwrites the array and returns
  \<open>RMW_RET_OK\<close>.
\<close>

theorem nonzero_namespaces_not_rejected:
  "get_node_names fleet_parser \<lparr>outcomes = [], live = 2\<rparr> ''rmw_connext_cpp''
     (Some talker) (Some rcutils_get_zero_initialized_string_array)
     (Some \<lparr>array_size = 1, array_data = Some [Some ''stale'']\<rparr>)
   = Some \<lparr>ret = RMW_RET_OK,
       names_out = Some \<lparr>array_size = 3,
         array_data = Some [Some ''talker'', Some ''robot1'', Some ''pname'']\<rparr>,
       namespaces_out = Some \<lparr>array_size = 3,
         array_data = Some [Some ''/'', Some ''/fleet'', Some ''/ns'']\<rparr>,
       allocator_out = \<lparr>outcomes = [], live = 16\<rparr>\<rparr>"
  by (simp add: get_node_names_code talker_def fleet_def fleet_parser_def)

subsection \<open>C6: names that are returned\<close>




subsection \<open>C9: participants whose data cannot be fetched\<close>

text \<open>
  C9. Once the list of discovered participants and the QoS are fetched, the function never
  returns \<open>RMW_RET_ERROR\<close>, whatever the fetches of the single participants answer. A
  participant whose data cannot be fetched is left out: when no request is refused and the
  caller's own name and namespace are at hand, the function returns \<open>RMW_RET_OK\<close> and the
  arrays hold the caller's own entry followed by the named participants among those whose
  data could be fetched.
\<close>

theorem unfetched_participants_are_skipped:
  assumes "node_implementation_identifier n = impl"
    and "get_discovered_participants (node_participant n) = (RETCODE_OK, hs)"
    and "get_qos (node_participant n) = (RETCODE_OK, own_name)"
    and "fetched = filter (\<lambda>h. fst (get_discovered_participant_data (node_participant n) h)
                                  = RETCODE_OK) hs"
  shows "\<exists>r. get_node_names pkv a impl (Some n)
               (Some rcutils_get_zero_initialized_string_array) nss = Some r
           \<and> ret r \<noteq> RMW_RET_ERROR
           \<and> (\<forall>x y. never_refuses a \<and> nss \<noteq> None \<and> own_name = Some x
                  \<and> node_namespace n = Some y \<longrightarrow>
                  ret r = RMW_RET_OK
                  \<and> names_out r
                      = Some \<lparr>array_size
                                = Suc (length (named_pairs pkv (node_participant n) fetched)),
                              array_data = Some (map (Some \<circ> c_str \<circ> fst)
                                ((x, y) # named_pairs pkv (node_participant n) fetched))\<rparr>
                  \<and> namespaces_out r
                      = Some \<lparr>array_size
                                = Suc (length (named_pairs pkv (node_participant n) fetched)),
                              array_data = Some (map (Some \<circ> c_str \<circ> snd)
                                ((x, y) # named_pairs pkv (node_participant n) fetched))\<rparr>)"
proof -
  from get_node_names_never_transport_error [OF assms(1-3), of pkv a nss]
  obtain r where r: "get_node_names pkv a impl (Some n)
               (Some rcutils_get_zero_initialized_string_array) nss = Some r"
    "ret r \<noteq> RMW_RET_ERROR"
    by auto
  have same: "named_pairs pkv (node_participant n) hs
              = named_pairs pkv (node_participant n) fetched"
    unfolding assms(4) by (rule named_pairs_skip_unfetched)
  have "ret r = RMW_RET_OK
        \<and> names_out r
            = Some \<lparr>array_size = Suc (length (named_pairs pkv (node_participant n) fetched)),
                    array_data = Some (map (Some \<circ> c_str \<circ> fst)
                      ((x, y) # named_pairs pkv (node_participant n) fetched))\<rparr>
        \<and> namespaces_out r
            = Some \<lparr>array_size = Suc (length (named_pairs pkv (node_participant n) fetched)),
                    array_data = Some (map (Some \<circ> c_str \<circ> snd)
                      ((x, y) # named_pairs pkv (node_participant n) fetched))\<rparr>"
    if "never_refuses a" "nss \<noteq> None" "own_name = Some x" "node_namespace n = Some y"
    for x y
    using get_node_names_served [OF assms(1,2) assms(3) [unfolded that(3)] that(4,1,2), of pkv]
      r(1)
    by (auto simp: same)
  with r show ?thesis by blast
qed

text \<open>
  The theorem at the example: the data of participant 11 cannot be fetched, and the call
  succeeds with the entries of 10 and 12.
\<close>

theorem unfetched_participants_are_skipped_witness:
  "get_discovered_participants (node_participant talker) = (RETCODE_OK, [10, 11, 12, 13])
   \<and> fst (get_discovered_participant_data (node_participant talker) 11) = RETCODE_ERROR
   \<and> filter (\<lambda>h. fst (get_discovered_participant_data (node_participant talker) h)
                   = RETCODE_OK) [10, 11, 12, 13] = [10, 12, 13]
   \<and> never_refuses \<lparr>outcomes = [], live = 0\<rparr>
   \<and> (\<exists>r. get_node_names fleet_parser \<lparr>outcomes = [], live = 0\<rparr> ''rmw_connext_cpp''
             (Some talker) (Some rcutils_get_zero_initialized_string_array)
             (Some rcutils_get_zero_initialized_string_array) = Some r
         \<and> ret r = RMW_RET_OK
         \<and> names_out r
             = Some \<lparr>array_size = 3,
                     array_data = Some [Some ''talker'', Some ''robot1'', Some ''pname'']\<rparr>
         \<and> namespaces_out r
             = Some \<lparr>array_size = 3,
                     array_data = Some [Some ''/'', Some ''/fleet'', Some ''/ns'']\<rparr>)"
proof -
  have facts:
    "node_implementation_identifier talker = ''rmw_connext_cpp''"
    "get_discovered_participants (node_participant talker) = (RETCODE_OK, [10, 11, 12, 13])"
    "get_qos (node_participant talker) = (RETCODE_OK, Some ''talker'')"
    "fst (get_discovered_participant_data (node_participant talker) 11) = RETCODE_ERROR"
    "[10, 12, 13] = filter (\<lambda>h. fst (get_discovered_participant_data (node_participant talker) h)
                   = RETCODE_OK) [10, 11, 12, 13]"
    "never_refuses \<lparr>outcomes = [], live = 0\<rparr>"
    "node_namespace talker = Some ''/''"
    by (simp_all add: talker_def fleet_def never_refuses_def)
  have rows: "named_pairs fleet_parser (node_participant talker) [10, 12, 13]
              = [(''robot1'', ''/fleet''), (''pname'', ''/ns'')]"
    by (simp add: named_pairs_def resolve_def talker_def fleet_def fleet_parser_def c_str_def)
  from unfetched_participants_are_skipped [OF facts(1,2,3,5), of fleet_parser
      "\<lparr>outcomes = [], live = 0\<rparr>" "Some rcutils_get_zero_initialized_string_array"]
    facts(6,7)
  have "\<exists>r. get_node_names fleet_parser \<lparr>outcomes = [], live = 0\<rparr> ''rmw_connext_cpp''
             (Some talker) (Some rcutils_get_zero_initialized_string_array)
             (Some rcutils_get_zero_initialized_string_array) = Some r
         \<and> ret r = RMW_RET_OK
         \<and> names_out r
             = Some \<lparr>array_size
                       = Suc (length (named_pairs fleet_parser (node_participant talker)
                                        [10, 12, 13])),
                     array_data = Some (map (Some \<circ> c_str \<circ> fst)
                       ((''talker'', ''/'')
                        # named_pairs fleet_parser (node_participant talker) [10, 12, 13]))\<rparr>
         \<and> namespaces_out r
             = Some \<lparr>array_size
                       = Suc (length (named_pairs fleet_parser (node_participant talker)
                                        [10, 12, 13])),
                     array_data = Some (map (Some \<circ> c_str \<circ> snd)
                       ((''talker'', ''/'')
                        # named_pairs fleet_parser (node_participant talker) [10, 12, 13]))\<rparr>"
    by auto
  then have "\<exists>r. get_node_names fleet_parser \<lparr>outcomes = [], live = 0\<rparr> ''rmw_connext_cpp''
             (Some talker) (Some rcutils_get_zero_initialized_string_array)
             (Some rcutils_get_zero_initialized_string_array) = Some r
         \<and> ret r = RMW_RET_OK
         \<and> names_out r
             = Some \<lparr>array_size = 3,
                     array_data = Some [Some ''talker'', Some ''robot1'', Some ''pname'']\<rparr>
         \<and> namespaces_out r
             = Some \<lparr>array_size = 3,
                     array_data = Some [Some ''/'', Some ''/fleet'', Some ''/ns'']\<rparr>"
    by (simp add: rows c_str_def numeral_3_eq_3)
  with facts show ?thesis by simp
qed

subsection \<open>C10: indices and bounds\<close>



subsection \<open>Further properties\<close>

text \<open>
  When \<open>node_names\<close> is null or not zero-initialized the function returns
  \<open>RMW_RET_ERROR\<close> and hands everything back untouched: the result does not depend on
  the participant, and the allocator has seen no request.
\<close>

theorem nonzero_names_rejected_first:
  assumes "names \<noteq> Some rcutils_get_zero_initialized_string_array"
  shows "get_node_names pkv a impl node names nss
         = Some \<lparr>ret = RMW_RET_ERROR, names_out = names, namespaces_out = nss,
                  allocator_out = a\<rparr>"
  using assms
  by (cases node) (simp_all add: get_node_names_def rmw_check_zero_iff Let_def)

text \<open>
  The theorem at the example.
\<close>

theorem nonzero_names_rejected_first_witness:
  "Some \<lparr>array_size = 1, array_data = Some [Some ''stale'']\<rparr>
     \<noteq> Some rcutils_get_zero_initialized_string_array
   \<and> get_node_names fleet_parser \<lparr>outcomes = [], live = 2\<rparr> ''rmw_connext_cpp''
        (Some talker) (Some \<lparr>array_size = 1, array_data = Some [Some ''stale'']\<rparr>)
        (Some rcutils_get_zero_initialized_string_array)
      = Some \<lparr>ret = RMW_RET_ERROR,
          names_out = Some \<lparr>array_size = 1, array_data = Some [Some ''stale'']\<rparr>,
          namespaces_out = Some rcutils_get_zero_initialized_string_array,
          allocator_out = \<lparr>outcomes = [], live = 2\<rparr>\<rparr>"
proof -
  have "Some \<lparr>array_size = 1, array_data = Some [Some ''stale'']\<rparr>
          \<noteq> Some rcutils_get_zero_initialized_string_array"
    by (simp add: rcutils_get_zero_initialized_string_array_def)
  from this nonzero_names_rejected_first [OF this] show ?thesis by simp
qed

text \<open>
  When both output arrays are zero-initialized on entry, every return with a status other
  than \<open>RMW_RET_OK\<close> leaves both in the zero-initialized state and has given back every
  block it requested.
\<close>

theorem failure_leaves_outputs_zero:
  assumes "get_node_names pkv a impl node
             (Some rcutils_get_zero_initialized_string_array)
             (Some rcutils_get_zero_initialized_string_array) = Some r"
    and "ret r \<noteq> RMW_RET_OK"
  shows "names_out r = Some rcutils_get_zero_initialized_string_array
       \<and> namespaces_out r = Some rcutils_get_zero_initialized_string_array
       \<and> live (allocator_out r) = live a"
proof (cases rule: get_node_names_cases [of pkv a impl node
      "Some rcutils_get_zero_initialized_string_array"
      "Some rcutils_get_zero_initialized_string_array"])
  case early
  with assms show ?thesis by (auto simp: early_return_def)
next
  case (assembled n hs own_name)
  let ?zero = "Some rcutils_get_zero_initialized_string_array"
  note stages = assemble_cases [where pkv = pkv and p = "node_participant n" and hs = hs
      and own_name = own_name and own_ns = "node_namespace n" and nss = ?zero and a = a]
  show ?thesis
  proof (cases "assemble pkv (node_participant n) hs own_name (node_namespace n) ?zero ?zero a")
    case Undefined_behaviour
    with stages show ?thesis by simp
  next
    case (Next m)
    with assembled assms show ?thesis
      by (auto simp: after_assembly_def)
  next
    case (Goto_cleanup g)
    with stages have g: "node_namespaces g = ?zero" "finalised (node_names g) = ?zero"
      "live (allocator g) = live a + held_ptr (node_names g) + held (tmp_names_list g)
         + held (tmp_namespaces_list g)"
      by simp_all
    from Goto_cleanup assembled assms have r: "r = cleanup g"
      by (simp add: after_assembly_def)
    from g show ?thesis
      unfolding r cleanup_eq by simp
  qed
qed

text \<open>
  The theorem at the example: the ninth request, the block of \<open>node_names\<close>, is refused.
\<close>

theorem failure_leaves_outputs_zero_witness:
  "get_node_names fleet_parser \<lparr>outcomes = [True, True, True, True, True, True, True, True, False],
       live = 0\<rparr>
     ''rmw_connext_cpp'' (Some talker) (Some rcutils_get_zero_initialized_string_array)
     (Some rcutils_get_zero_initialized_string_array)
   = Some \<lparr>ret = RMW_RET_BAD_ALLOC,
       names_out = Some rcutils_get_zero_initialized_string_array,
       namespaces_out = Some rcutils_get_zero_initialized_string_array,
       allocator_out = \<lparr>outcomes = [], live = 0\<rparr>\<rparr>
   \<and> live \<lparr>outcomes = ([]::bool list), live = 0\<rparr>
       = live \<lparr>outcomes = [True, True, True, True, True, True, True, True, False],
                live = 0\<rparr>"
proof -
  have run: "get_node_names fleet_parser
       \<lparr>outcomes = [True, True, True, True, True, True, True, True, False], live = 0\<rparr>
     ''rmw_connext_cpp'' (Some talker) (Some rcutils_get_zero_initialized_string_array)
     (Some rcutils_get_zero_initialized_string_array)
   = Some \<lparr>ret = RMW_RET_BAD_ALLOC,
       names_out = Some rcutils_get_zero_initialized_string_array,
       namespaces_out = Some rcutils_get_zero_initialized_string_array,
       allocator_out = \<lparr>outcomes = [], live = 0\<rparr>\<rparr>"
    by (simp add: get_node_names_code talker_def fleet_def fleet_parser_def)
  from run failure_leaves_outputs_zero [OF run] show ?thesis by simp
qed

text \<open>
  When the checks pass, the transport answers, no request is refused and the caller's own
  name and namespace are at hand, the function returns \<open>RMW_RET_OK\<close> with two arrays of
  one plus the number of named participants, every slot populated, the caller's own entry
  at index 0 and the named participants after it, in discovery order.
\<close>

theorem all_served_lists_everyone:
  assumes "node_implementation_identifier n = impl"
    and "get_discovered_participants (node_participant n) = (RETCODE_OK, hs)"
    and "get_qos (node_participant n) = (RETCODE_OK, Some x)"
    and "node_namespace n = Some y"
    and "never_refuses a" and "nss \<noteq> None"
    and "k = Suc (length (filter (\<lambda>h. fst (resolve pkv (node_participant n) h) \<noteq> []) hs))"
  shows "\<exists>r us vs. get_node_names pkv a impl (Some n)
                     (Some rcutils_get_zero_initialized_string_array) nss = Some r
           \<and> ret r = RMW_RET_OK
           \<and> names_out r = Some \<lparr>array_size = k, array_data = Some us\<rparr>
           \<and> namespaces_out r = Some \<lparr>array_size = k, array_data = Some vs\<rparr>
           \<and> length us = k \<and> length vs = k \<and> None \<notin> set us \<and> None \<notin> set vs
           \<and> us ! 0 = Some (c_str x) \<and> vs ! 0 = Some (c_str y)
           \<and> (\<forall>i < k - 1. \<exists>name ns.
                  named_pairs pkv (node_participant n) hs ! i = (name, ns) \<and> name \<noteq> []
                  \<and> us ! Suc i = Some (c_str name) \<and> vs ! Suc i = Some (c_str ns))"
proof -
  let ?P = "named_pairs pkv (node_participant n) hs"
  from get_node_names_served [OF assms(1-6), of pkv]
  obtain r where r: "get_node_names pkv a impl (Some n)
                       (Some rcutils_get_zero_initialized_string_array) nss = Some r"
    "ret r = RMW_RET_OK"
    "names_out r = Some \<lparr>array_size = Suc (length ?P),
                          array_data = Some (map (Some \<circ> c_str \<circ> fst) ((x, y) # ?P))\<rparr>"
    "namespaces_out r = Some \<lparr>array_size = Suc (length ?P),
                               array_data = Some (map (Some \<circ> c_str \<circ> snd) ((x, y) # ?P))\<rparr>"
    by auto
  have k: "k = Suc (length ?P)"
    by (simp add: assms(7) length_named_pairs_filter)
  have rest: "\<exists>name ns. ?P ! i = (name, ns) \<and> name \<noteq> []
                \<and> map (Some \<circ> c_str \<circ> fst) ((x, y) # ?P) ! Suc i = Some (c_str name)
                \<and> map (Some \<circ> c_str \<circ> snd) ((x, y) # ?P) ! Suc i = Some (c_str ns)"
    if "i < k - 1" for i
  proof -
    from that k have i: "i < length ?P" by simp
    obtain name ns where pair: "?P ! i = (name, ns)" by (cases "?P ! i")
    with i have "(name, ns) \<in> set ?P" by (metis nth_mem)
    then have "name \<noteq> []" by (auto simp: named_pairs_def)
    with pair i show ?thesis by simp
  qed
  from r k rest show ?thesis
    by (intro exI [of _ r] exI [of _ "map (Some \<circ> c_str \<circ> fst) ((x, y) # ?P)"]
          exI [of _ "map (Some \<circ> c_str \<circ> snd) ((x, y) # ?P)"])
       (auto simp del: nth_Cons_Suc)
qed

text \<open>
  The theorem at the example.
\<close>

theorem all_served_lists_everyone_witness:
  "never_refuses \<lparr>outcomes = [], live = 0\<rparr>
   \<and> Suc (length (filter (\<lambda>h. fst (resolve fleet_parser (node_participant talker) h) \<noteq> [])
                    [10, 11, 12, 13])) = 3
   \<and> (\<exists>r us vs. get_node_names fleet_parser \<lparr>outcomes = [], live = 0\<rparr> ''rmw_connext_cpp''
                    (Some talker) (Some rcutils_get_zero_initialized_string_array)
                    (Some rcutils_get_zero_initialized_string_array) = Some r
         \<and> ret r = RMW_RET_OK
         \<and> names_out r = Some \<lparr>array_size = 3, array_data = Some us\<rparr>
         \<and> namespaces_out r = Some \<lparr>array_size = 3, array_data = Some vs\<rparr>
         \<and> length us = 3 \<and> length vs = 3 \<and> None \<notin> set us \<and> None \<notin> set vs
         \<and> us ! 0 = Some ''talker'' \<and> vs ! 0 = Some ''/'')"
proof -
  have facts:
    "node_implementation_identifier talker = ''rmw_connext_cpp''"
    "get_discovered_participants (node_participant talker) = (RETCODE_OK, [10, 11, 12, 13])"
    "get_qos (node_participant talker) = (RETCODE_OK, Some ''talker'')"
    "node_namespace talker = Some ''/''"
    "never_refuses \<lparr>outcomes = [], live = 0\<rparr>"
    "Some rcutils_get_zero_initialized_string_array \<noteq> None"
    by (simp_all add: talker_def fleet_def never_refuses_def)
  have count: "3 = Suc (length (filter (\<lambda>h. fst (resolve fleet_parser (node_participant talker) h)
                                            \<noteq> []) [10, 11, 12, 13]))"
    by (simp add: resolve_def talker_def fleet_def fleet_parser_def c_str_def)
  from all_served_lists_everyone [OF facts count]
  have "\<exists>r us vs. get_node_names fleet_parser \<lparr>outcomes = [], live = 0\<rparr> ''rmw_connext_cpp''
                    (Some talker) (Some rcutils_get_zero_initialized_string_array)
                    (Some rcutils_get_zero_initialized_string_array) = Some r
         \<and> ret r = RMW_RET_OK
         \<and> names_out r = Some \<lparr>array_size = 3, array_data = Some us\<rparr>
         \<and> namespaces_out r = Some \<lparr>array_size = 3, array_data = Some vs\<rparr>
         \<and> length us = 3 \<and> length vs = 3 \<and> None \<notin> set us \<and> None \<notin> set vs
         \<and> us ! 0 = Some (c_str ''talker'') \<and> vs ! 0 = Some (c_str ''/'')"
    by blast
  moreover have "c_str ''talker'' = ''talker''" "c_str ''/'' = ''/''"
    by (simp_all add: c_str_def)
  ultimately show ?thesis
    using facts(5) count by simp
qed

text \<open>
  After a successful call in which no request was refused, the allocator has handed out,
  beyond the blocks that the two returned arrays hold, two more blocks per entry: the
  temporary copies of lines 96--153, whose pointers the copy loop overwrites with null
  (lines 181 and 184) before the temporary arrays are finalised.
\<close>

theorem successful_call_keeps_temporary_strings:
  assumes "node_implementation_identifier n = impl"
    and "get_discovered_participants (node_participant n) = (RETCODE_OK, hs)"
    and "get_qos (node_participant n) = (RETCODE_OK, Some x)"
    and "node_namespace n = Some y"
    and "never_refuses a" and "nss \<noteq> None"
  shows "\<exists>r names namespaces.
           get_node_names pkv a impl (Some n)
             (Some rcutils_get_zero_initialized_string_array) nss = Some r
           \<and> ret r = RMW_RET_OK
           \<and> names_out r = Some names \<and> namespaces_out r = Some namespaces
           \<and> live (allocator_out r)
               = live a + held names + held namespaces + 2 * array_size names"
proof -
  let ?p = "node_participant n"
  let ?rows = "own_and_named pkv ?p hs x y"
  note whole = get_node_names_past_checks [OF assms(1-3), of pkv a nss]
  note stages = assemble_cases [where pkv = pkv and p = ?p and hs = hs
      and own_name = "Some x" and own_ns = "Some y" and nss = nss and a = a]
  have rows: "length ?rows = Suc (length (named_pairs pkv ?p hs))"
    by (simp add: own_and_named_def)
  show ?thesis
  proof (cases "assemble pkv ?p hs (Some x) (Some y)
      (Some rcutils_get_zero_initialized_string_array) nss a")
    case Undefined_behaviour
    with stages show ?thesis by simp
  next
    case (Goto_cleanup g)
    with stages assms show ?thesis by simp
  next
    case (Next m)
    with stages assms have m:
      "node_names m = Some \<lparr>array_size = length ?rows,
                             array_data = Some (map (Some \<circ> (c_str \<circ> fst)) ?rows)\<rparr>"
      "node_namespaces m = Some \<lparr>array_size = length ?rows,
                                  array_data = Some (map (Some \<circ> (c_str \<circ> snd)) ?rows)\<rparr>"
      "live (allocator m) = live a + 2 + 4 * length ?rows"
      by (auto simp: rows comp_assoc)
    let ?r = "\<lparr>ret = RMW_RET_OK, names_out = node_names m,
               namespaces_out = node_namespaces m, allocator_out = allocator m\<rparr>"
    from Next whole assms have r: "get_node_names pkv a impl (Some n)
             (Some rcutils_get_zero_initialized_string_array) nss = Some ?r"
      by (simp add: after_assembly_def)
    show ?thesis
      by (intro exI [of _ ?r]
            exI [of _ "\<lparr>array_size = length ?rows,
                         array_data = Some (map (Some \<circ> (c_str \<circ> fst)) ?rows)\<rparr>"]
            exI [of _ "\<lparr>array_size = length ?rows,
                         array_data = Some (map (Some \<circ> (c_str \<circ> snd)) ?rows)\<rparr>"])
         (simp add: r m held_populated)
  qed
qed

text \<open>
  The theorem at the example: 14 blocks are outstanding, the returned arrays hold 8.
\<close>

theorem successful_call_keeps_temporary_strings_witness:
  "never_refuses \<lparr>outcomes = [], live = 0\<rparr>
   \<and> get_node_names fleet_parser \<lparr>outcomes = [], live = 0\<rparr> ''rmw_connext_cpp''
       (Some talker) (Some rcutils_get_zero_initialized_string_array)
       (Some rcutils_get_zero_initialized_string_array)
     = Some \<lparr>ret = RMW_RET_OK,
         names_out = Some \<lparr>array_size = 3,
           array_data = Some [Some ''talker'', Some ''robot1'', Some ''pname'']\<rparr>,
         namespaces_out = Some \<lparr>array_size = 3,
           array_data = Some [Some ''/'', Some ''/fleet'', Some ''/ns'']\<rparr>,
         allocator_out = \<lparr>outcomes = [], live = 14\<rparr>\<rparr>
   \<and> held \<lparr>array_size = 3,
           array_data = Some [Some ''talker'', Some ''robot1'', Some ''pname'']\<rparr> = 4
   \<and> held \<lparr>array_size = 3,
           array_data = Some [Some ''/'', Some ''/fleet'', Some ''/ns'']\<rparr> = 4
   \<and> (14::nat) = 0 + 4 + 4 + 2 * 3"
proof -
  have facts:
    "node_implementation_identifier talker = ''rmw_connext_cpp''"
    "get_discovered_participants (node_participant talker) = (RETCODE_OK, [10, 11, 12, 13])"
    "get_qos (node_participant talker) = (RETCODE_OK, Some ''talker'')"
    "node_namespace talker = Some ''/''"
    "never_refuses \<lparr>outcomes = [], live = 0\<rparr>"
    "Some rcutils_get_zero_initialized_string_array \<noteq> None"
    by (simp_all add: talker_def fleet_def never_refuses_def)
  from successful_call_keeps_temporary_strings [OF facts, of fleet_parser] fleet_run
  have "live \<lparr>outcomes = ([]::bool list), live = 14\<rparr>
        = live \<lparr>outcomes = ([]::bool list), live = 0\<rparr>
          + held \<lparr>array_size = 3,
              array_data = Some [Some ''talker'', Some ''robot1'', Some ''pname'']\<rparr>
          + held \<lparr>array_size = 3,
              array_data = Some [Some ''/'', Some ''/fleet'', Some ''/ns'']\<rparr>
          + 2 * array_size \<lparr>array_size = 3,
              array_data = Some [Some ''talker'', Some ''robot1'', Some ''pname'']\<rparr>"
    by auto
  with facts(5) fleet_run show ?thesis
    by (simp add: held_def)
qed

end
